theory Spec2Isabelle
  imports Complex_Main "HOL-Library.Sublist" "HOL-Library.Multiset"
begin

section \<open>JavaScript values used by the table engine\<close>

text \<open>
  The table (class \<open>Tabelin\<close> in \<open>src/tablein.js\<close>) stores rows whose cells are
  JavaScript primitives. Numbers are IEEE doubles in the source; the model keeps the
  special values apart and takes the finite ones as exact rationals, so that the
  rounding of an arithmetic result is not represented (its sign, which is all a sort
  comparator's caller reads, is exact). Negative zero is identified with zero.
\<close>

datatype jsnum = NaN | NegInf | Fin rat | PosInf

datatype jsval = Undefined | Null | JBool bool | JNum jsnum | JStr string

text \<open>A row is an object: a field that is absent reads as \<open>undefined\<close>.\<close>

type_synonym row = "string \<Rightarrow> jsval option"

definition getField :: "row \<Rightarrow> string \<Rightarrow> jsval" where
  "getField r f = (case r f of None \<Rightarrow> Undefined | Some v \<Rightarrow> v)"

text \<open>
  Functions of the JavaScript runtime that the source calls on strings. They are not
  part of the repository, so every definition that needs one takes the runtime as a
  parameter.
\<close>

record host =
  parseFloatStr :: "string \<Rightarrow> jsnum"
  stringToNumber :: "string \<Rightarrow> jsnum"
  dateParse :: "string \<Rightarrow> int option"
  numberToString :: "rat \<Rightarrow> string"
  localeCompare :: "string \<Rightarrow> string \<Rightarrow> int"
  toLowerCase :: "string \<Rightarrow> string"
  trim :: "string \<Rightarrow> string"
  regExpTest :: "string \<Rightarrow> string \<Rightarrow> bool option"

text \<open>\<open>String(v)\<close>.\<close>

definition numToString :: "host \<Rightarrow> jsnum \<Rightarrow> string" where
  "numToString h n = (case n of NaN \<Rightarrow> ''NaN'' | NegInf \<Rightarrow> ''-Infinity''
     | PosInf \<Rightarrow> ''Infinity'' | Fin r \<Rightarrow> numberToString h r)"

definition toString :: "host \<Rightarrow> jsval \<Rightarrow> string" where
  "toString h v = (case v of Undefined \<Rightarrow> ''undefined'' | Null \<Rightarrow> ''null''
     | JBool b \<Rightarrow> (if b then ''true'' else ''false'')
     | JNum n \<Rightarrow> numToString h n | JStr s \<Rightarrow> s)"

text \<open>\<open>Number(v)\<close>.\<close>

definition toNumber :: "host \<Rightarrow> jsval \<Rightarrow> jsnum" where
  "toNumber h v = (case v of Undefined \<Rightarrow> NaN | Null \<Rightarrow> Fin 0
     | JBool b \<Rightarrow> (if b then Fin 1 else Fin 0)
     | JNum n \<Rightarrow> n | JStr s \<Rightarrow> stringToNumber h s)"

text \<open>
  \<open>parseFloat(v)\<close> parses \<open>String(v)\<close>: a number is read back unchanged, and the
  strings of \<open>undefined\<close>, \<open>null\<close> and the booleans are not numeric.
\<close>

definition parseFloat :: "host \<Rightarrow> jsval \<Rightarrow> jsnum" where
  "parseFloat h v = (case v of JNum n \<Rightarrow> n | JStr s \<Rightarrow> parseFloatStr h s | _ \<Rightarrow> NaN)"

definition isNaN :: "jsnum \<Rightarrow> bool" where
  "isNaN n = (n = NaN)"

text \<open>Truthiness, as read by \<open>!v\<close>, \<open>v || w\<close> and \<open>if (v)\<close>.\<close>

definition truthy :: "jsval \<Rightarrow> bool" where
  "truthy v = (case v of Undefined \<Rightarrow> False | Null \<Rightarrow> False | JBool b \<Rightarrow> b
     | JNum n \<Rightarrow> n \<noteq> NaN \<and> n \<noteq> Fin 0 | JStr s \<Rightarrow> s \<noteq> [])"

text \<open>\<open>a === b\<close> on primitives: \<open>NaN\<close> is not equal to itself.\<close>

definition strictEq :: "jsval \<Rightarrow> jsval \<Rightarrow> bool" where
  "strictEq a b = (a = b \<and> a \<noteq> JNum NaN)"

text \<open>Subtraction and the relational operators on numbers.\<close>

fun js_sub :: "jsnum \<Rightarrow> jsnum \<Rightarrow> jsnum" where
  "js_sub NaN _ = NaN"
| "js_sub _ NaN = NaN"
| "js_sub (Fin a) (Fin b) = Fin (a - b)"
| "js_sub PosInf PosInf = NaN"
| "js_sub NegInf NegInf = NaN"
| "js_sub PosInf _ = PosInf"
| "js_sub NegInf _ = NegInf"
| "js_sub (Fin a) PosInf = NegInf"
| "js_sub (Fin a) NegInf = PosInf"

fun js_lt :: "jsnum \<Rightarrow> jsnum \<Rightarrow> bool" where
  "js_lt NaN _ = False"
| "js_lt _ NaN = False"
| "js_lt (Fin a) (Fin b) = (a < b)"
| "js_lt NegInf b = (b \<noteq> NegInf)"
| "js_lt a PosInf = (a \<noteq> PosInf)"
| "js_lt _ _ = False"

definition js_le :: "jsnum \<Rightarrow> jsnum \<Rightarrow> bool" where
  "js_le a b = (a \<noteq> NaN \<and> b \<noteq> NaN \<and> (js_lt a b \<or> a = b))"

definition js_gt :: "jsnum \<Rightarrow> jsnum \<Rightarrow> bool" where
  "js_gt a b = js_lt b a"

definition js_ge :: "jsnum \<Rightarrow> jsnum \<Rightarrow> bool" where
  "js_ge a b = js_le b a"

text \<open>
  \<open>xs.slice(start, end)\<close>: a negative index counts from the end, and both indices are
  clamped to the array.
\<close>

definition js_slice :: "'a list \<Rightarrow> int \<Rightarrow> int \<Rightarrow> 'a list" where
  "js_slice xs start end =
     (let len = int (length xs);
          k = (if start < 0 then max (len + start) 0 else min start len);
          fin = (if end < 0 then max (len + end) 0 else min end len)
      in take (nat (fin - k)) (drop (nat k) xs))"

text \<open>
  \<open>Math.ceil(n / s)\<close> for a length \<open>n\<close> and a page size \<open>s\<close>. The source divides
  doubles; for \<open>s \<ge> 1\<close> the result is the integer ceiling computed here. A page size
  below 1 gives \<open>Infinity\<close>, \<open>NaN\<close> or a non-positive number in the source, which the
  integer fields of the model do not represent: every statement about page counts
  assumes \<open>1 \<le> pageSize\<close>.
\<close>

definition ceilDiv :: "int \<Rightarrow> int \<Rightarrow> int" where
  "ceilDiv n s = - ((- n) div s)"

section \<open>Table state\<close>

text \<open>
  Row objects live in a store: the working array \<open>options.data\<close> and the restore point
  \<open>originalData\<close> hold references (addresses) to the same row objects, as the shallow
  copies \<open>[...this.options.data]\<close> of the source do.
\<close>

record column =
  field :: string
  render :: "(jsval \<Rightarrow> row \<Rightarrow> string) option"

record user =
  user_id :: jsval
  user_name :: jsval
  user_color :: jsval

record version =
  v_value :: jsval
  v_timestamp :: int
  v_user :: user

type_synonym params = "(string \<times> jsval) list"

record tabelin_options =
  data :: "nat list"
  columns :: "column list"
  pageSize :: int
  serverSide :: bool
  serverParams :: "(params \<Rightarrow> params) option"
  lazyLoad :: bool
  infiniteScroll :: bool
  collaborationUser :: "user option"
  versionHistory :: bool
  maxVersions :: nat

text \<open>
  The options a claim depends on. \<open>data\<close> is the working array (references to rows);
  \<open>pageSize\<close> is an integer and \<open>maxVersions\<close> a count.
\<close>

text \<open>
  The part of the document the engine writes: the rows of \<open>tbody\<close> with their
  \<open>data-row-index\<close> attribute and the text of their cells, the \<open>loading\<close> class of
  the table, the sort indicator of the header and the pagination bar. Styling (classes,
  highlights, tooltips and their timers) is left out.
\<close>

record dom_row =
  rowIndexAttr :: "int option"
  cells :: "string list"

record pagination_dom =
  pageInfo :: "int \<times> int \<times> (int \<times> int \<times> int) option"
  firstDisabled :: bool
  prevDisabled :: bool
  nextDisabled :: bool
  lastDisabled :: bool

record tabelin =
  options :: tabelin_options
  currentPage :: int
  totalPages :: int
  isBusy :: bool
  loadedRows :: int
  hasMoreData :: "bool option"
  originalData :: "nat list"
  totalRecords :: int
  searchTerm :: string
  sortField :: string
  sortDirection :: string
  cellVersions :: "string \<Rightarrow> nat option"
  versionArrays :: "nat \<Rightarrow> version list"
  nextArray :: nat
  heap :: "nat \<Rightarrow> row"
  tbody :: "dom_row list"
  loading :: bool
  sortIndicator :: "(nat \<times> string) option"
  pagination :: pagination_dom
  inFlight :: "params list"
  alerts :: "string list"
  dialogs :: "(nat \<times> version \<times> bool) list list"

text \<open>
  \<open>inFlight\<close> holds the requests handed to \<open>fetch\<close> whose response has not been
  handled yet; \<open>hasMoreData\<close> is \<open>undefined\<close> (\<open>None\<close>) until a load assigns it.
  The map \<open>cellVersions\<close> holds, for a cell key, a reference to that cell's array of
  versions; the arrays themselves are in the store \<open>versionArrays\<close>, and
  \<open>nextArray\<close> is the next unused reference. \<open>alerts\<close> and \<open>dialogs\<close> record the
  alert boxes and the version-history dialogs shown (one line per listed version: its
  displayed number, the version, and whether it has a restore button). The presence
  roster and the remote-cursor overlay are presentation only and are not part of the
  modelled state.
\<close>

section \<open>Rendering\<close>

text \<open>
  The text of a cell comes from the column's \<open>render\<close> function when it has one and
  from the value otherwise. The options \<open>smartFormatting\<close> and
  \<open>conditionalFormatting\<close> (both off by default) only restyle a cell and are taken
  to be off.
\<close>

definition cellText :: "host \<Rightarrow> column \<Rightarrow> row \<Rightarrow> string" where
  "cellText h c r =
     (let v = getField r (field c) in
      case render c of
        Some f \<Rightarrow> f v r
      | None \<Rightarrow> (if v \<noteq> Undefined \<and> v \<noteq> Null then toString h v else []))"

definition emptyRow :: dom_row where
  "emptyRow = \<lparr>rowIndexAttr = None, cells = [''No data available'']\<rparr>"

definition renderData :: "host \<Rightarrow> row list \<Rightarrow> tabelin \<Rightarrow> tabelin" where
  "renderData h rows s =
     (if length rows = 0 then s\<lparr>tbody := [emptyRow]\<rparr>
      else s\<lparr>tbody := map (\<lambda>(rowIndex, r).
               \<lparr>rowIndexAttr = Some (int rowIndex),
                cells = map (\<lambda>c. cellText h c r) (columns (options s))\<rparr>)
             (enumerate 0 rows)\<rparr>)"

definition cellTextAppend :: "host \<Rightarrow> column \<Rightarrow> row \<Rightarrow> string" where
  "cellTextAppend h c r =
     (let v = getField r (field c) in
      case render c of
        Some f \<Rightarrow> f v r
      | None \<Rightarrow> (if truthy v then toString h v else []))"

definition appendData :: "host \<Rightarrow> row list \<Rightarrow> tabelin \<Rightarrow> tabelin" where
  "appendData h rows s =
     (let startIndex = loadedRows s in
      s\<lparr>tbody := tbody s @ map (\<lambda>(index, r).
               \<lparr>rowIndexAttr = Some (startIndex + int index),
                cells = map (\<lambda>c. cellTextAppend h c r) (columns (options s))\<rparr>)
             (enumerate 0 rows)\<rparr>)"

definition updatePaginationInfo :: "tabelin \<Rightarrow> tabelin" where
  "updatePaginationInfo s =
     (let startRecord = ((currentPage s - 1) * pageSize (options s)) + 1;
          endRecord = min (currentPage s * pageSize (options s)) (totalRecords s)
      in s\<lparr>pagination :=
           \<lparr>pageInfo = (currentPage s, totalPages s,
                if serverSide (options s)
                then Some (startRecord, endRecord, totalRecords s) else None),
            firstDisabled = (currentPage s = 1),
            prevDisabled = (currentPage s = 1),
            nextDisabled = (currentPage s = totalPages s),
            lastDisabled = (currentPage s = totalPages s)\<rparr>\<rparr>)"

section \<open>Loading data\<close>

definition buildServerParams :: "tabelin \<Rightarrow> params" where
  "buildServerParams s =
     (let p1 = (if infiniteScroll (options s) \<or> lazyLoad (options s)
                then [(''start'', JNum (Fin (of_int (loadedRows s)))),
                      (''length'', JNum (Fin (of_int (pageSize (options s)))))]
                else [(''page'', JNum (Fin (of_int (currentPage s)))),
                      (''pageSize'', JNum (Fin (of_int (pageSize (options s)))))]);
          p2 = (if searchTerm s \<noteq> [] then p1 @ [(''search'', JStr (searchTerm s))] else p1);
          p3 = (if sortField s \<noteq> []
                then p2 @ [(''sortField'', JStr (sortField s)),
                           (''sortOrder'', JStr (sortDirection s))]
                else p2)
      in case serverParams (options s) of
           None \<Rightarrow> p3
         | Some f \<Rightarrow> fold (\<lambda>(k, v) acc.
                       if k \<in> set (map fst acc)
                       then map (\<lambda>(k', v'). if k' = k then (k', v) else (k', v')) acc
                       else acc @ [(k, v)]) (f p3) p3)"

text \<open>
  \<open>loadServerData\<close> only dispatches the request; the table stays busy until one of the
  two continuations below handles the response.
\<close>

definition loadServerData :: "tabelin \<Rightarrow> tabelin" where
  "loadServerData s = s\<lparr>inFlight := inFlight s @ [buildServerParams s]\<rparr>"

text \<open>
  The page of the working array that \<open>loadClientData\<close> renders in paged mode:
  \<open>data.slice(startIndex, endIndex)\<close>.
\<close>

definition pageData :: "tabelin \<Rightarrow> nat list" where
  "pageData s =
     (let startIndex = (currentPage s - 1) * pageSize (options s);
          endIndex = startIndex + pageSize (options s)
      in js_slice (data (options s)) startIndex endIndex)"

definition loadClientData :: "host \<Rightarrow> tabelin \<Rightarrow> tabelin" where
  "loadClientData h s =
     (let d = data (options s);
          s' = (if infiniteScroll (options s) \<or> lazyLoad (options s) then
                  (let initialCount = min (pageSize (options s)) (int (length d));
                       initialData = js_slice d 0 initialCount;
                       s1 = (if loadedRows s = 0
                             then renderData h (map (heap s) initialData) s
                             else appendData h (map (heap s) initialData) s)
                   in s1\<lparr>loadedRows := initialCount,
                         hasMoreData := Some (initialCount < int (length d))\<rparr>)
                else
                  (let s1 = renderData h (map (heap s) (pageData s)) s;
                       s2 = s1\<lparr>totalRecords := int (length d),
                               totalPages := ceilDiv (int (length d)) (pageSize (options s))\<rparr>
                   in updatePaginationInfo s2))
      in s'\<lparr>isBusy := False, loading := False\<rparr>)"

definition loadData :: "host \<Rightarrow> tabelin \<Rightarrow> tabelin" where
  "loadData h s =
     (if isBusy s then s
      else
        (let s1 = s\<lparr>isBusy := True, loading := True\<rparr> in
         if serverSide (options s1) then loadServerData s1 else loadClientData h s1))"

definition loadMore :: "host \<Rightarrow> tabelin \<Rightarrow> tabelin" where
  "loadMore h s =
     (if isBusy s \<or> hasMoreData s \<noteq> Some True then s
      else
        (let s1 = s\<lparr>isBusy := True\<rparr> in
         if serverSide (options s1) then loadServerData s1
         else
           (let d = data (options s1);
                nextBatch = js_slice d (loadedRows s1) (loadedRows s1 + pageSize (options s1));
                s2 = appendData h (map (heap s1) nextBatch) s1;
                s3 = s2\<lparr>loadedRows := loadedRows s2 + int (length nextBatch)\<rparr>
            in s3\<lparr>hasMoreData := Some (loadedRows s3 < int (length d)), isBusy := False\<rparr>)))"

text \<open>
  The two continuations of the request. A response carries the rows (\<open>items\<close> or
  \<open>data\<close>) and the counts, each possibly absent; \<open>a || b\<close> on numbers skips an absent
  or zero \<open>a\<close>.
\<close>

record response =
  items :: "row list option"
  r_data :: "row list option"
  r_totalPages :: "int option"
  r_totalRecords :: "int option"
  recordsTotal :: "int option"
  recordsFiltered :: "int option"

definition orElse :: "int option \<Rightarrow> int \<Rightarrow> int" where
  "orElse a b = (case a of Some x \<Rightarrow> (if x \<noteq> 0 then x else b) | None \<Rightarrow> b)"

definition responseRows :: "response \<Rightarrow> row list" where
  "responseRows r = (case items r of Some xs \<Rightarrow> xs
     | None \<Rightarrow> (case r_data r of Some ys \<Rightarrow> ys | None \<Rightarrow> []))"

definition onServerResponse :: "host \<Rightarrow> response \<Rightarrow> tabelin \<Rightarrow> tabelin" where
  "onServerResponse h r s =
     (let s0 = s\<lparr>inFlight := tl (inFlight s)\<rparr>;
          s' = (if infiniteScroll (options s0) \<or> lazyLoad (options s0) then
                  (let s1 = appendData h (responseRows r) s0 in
                   s1\<lparr>loadedRows := loadedRows s1 + int (length (responseRows r)),
                      hasMoreData := Some (int (length (responseRows r)) \<ge> pageSize (options s1))\<rparr>)
                else
                  (let s1 = renderData h (responseRows r) s0;
                       s2 = s1\<lparr>totalPages := orElse (r_totalPages r)
                                 (orElse (map_option (\<lambda>n. ceilDiv n (pageSize (options s1)))
                                            (r_totalRecords r)) 1)\<rparr>;
                       s3 = s2\<lparr>totalRecords := orElse (r_totalRecords r)
                                 (orElse (recordsTotal r) (orElse (recordsFiltered r) 0))\<rparr>
                   in updatePaginationInfo s3))
      in s'\<lparr>isBusy := False, loading := False\<rparr>)"

definition errorRow :: "string \<Rightarrow> dom_row" where
  "errorRow msg = \<lparr>rowIndexAttr = None, cells = [''Error loading data: '' @ msg]\<rparr>"

definition onServerError :: "string \<Rightarrow> tabelin \<Rightarrow> tabelin" where
  "onServerError msg s =
     s\<lparr>inFlight := tl (inFlight s), isBusy := False, loading := False,
       tbody := [errorRow msg]\<rparr>"

section \<open>Navigation\<close>

definition nextPage :: "host \<Rightarrow> tabelin \<Rightarrow> tabelin" where
  "nextPage h s =
     (if currentPage s < totalPages s \<and> \<not> isBusy s
      then loadData h (s\<lparr>currentPage := currentPage s + 1\<rparr>) else s)"

definition prevPage :: "host \<Rightarrow> tabelin \<Rightarrow> tabelin" where
  "prevPage h s =
     (if currentPage s > 1 \<and> \<not> isBusy s
      then loadData h (s\<lparr>currentPage := currentPage s - 1\<rparr>) else s)"

definition goToPage :: "host \<Rightarrow> int \<Rightarrow> tabelin \<Rightarrow> tabelin" where
  "goToPage h page s =
     (if page \<ge> 1 \<and> page \<le> totalPages s \<and> \<not> isBusy s
      then loadData h (s\<lparr>currentPage := page\<rparr>) else s)"

definition refresh :: "host \<Rightarrow> tabelin \<Rightarrow> tabelin" where
  "refresh h s =
     loadData h (if infiniteScroll (options s) \<or> lazyLoad (options s)
                 then s\<lparr>loadedRows := 0, hasMoreData := Some True\<rparr>
                 else s\<lparr>currentPage := 1\<rparr>)"

text \<open>
  The constructor (for a table built from the \<open>data\<close> option, \<open>useHTML\<close> off): the
  fields as the constructor sets them, the pagination bar created by \<open>init\<close> when the
  table is paged, then the first \<open>loadData\<close>.
\<close>

definition initialState :: "tabelin_options \<Rightarrow> (nat \<Rightarrow> row) \<Rightarrow> tabelin" where
  "initialState opts hp =
     \<lparr>options = opts, currentPage = 1, totalPages = 1, isBusy = False, loadedRows = 0,
      hasMoreData = None, originalData = data opts, totalRecords = 0, searchTerm = [],
      sortField = [], sortDirection = ''asc'', cellVersions = (\<lambda>k. None),
      versionArrays = (\<lambda>a. []), nextArray = 0, heap = hp,
      tbody = [], loading = False, sortIndicator = None,
      pagination = \<lparr>pageInfo = (1, 1, None), firstDisabled = False, prevDisabled = False,
                    nextDisabled = False, lastDisabled = False\<rparr>,
      inFlight = [], alerts = [], dialogs = []\<rparr>"

definition construct :: "host \<Rightarrow> tabelin_options \<Rightarrow> (nat \<Rightarrow> row) \<Rightarrow> tabelin" where
  "construct h opts hp =
     (let s0 = initialState opts hp;
          s1 = (if \<not> infiniteScroll opts \<and> \<not> lazyLoad opts then updatePaginationInfo s0 else s0)
      in loadData h s1)"

section \<open>Sorting\<close>

text \<open>
  \<open>new Date(v)\<close> as the time value it holds (\<open>None\<close> for an invalid date): a string is
  parsed by the runtime, any other value is converted to a number and clipped.
\<close>

definition timeClip :: "jsnum \<Rightarrow> int option" where
  "timeClip n = (case n of
       Fin r \<Rightarrow> (if \<bar>r\<bar> \<le> 8640000000000000
                 then Some (if r \<ge> 0 then \<lfloor>r\<rfloor> else \<lceil>r\<rceil>) else None)
     | _ \<Rightarrow> None)"

definition newDate :: "host \<Rightarrow> jsval \<Rightarrow> int option" where
  "newDate h v = (case v of JStr s \<Rightarrow> dateParse h s | _ \<Rightarrow> timeClip (toNumber h v))"

text \<open>
  The comparator that \<open>sortBy\<close> hands to \<open>Array.prototype.sort\<close>, applied to the two
  cell values \<open>a[field]\<close> and \<open>b[field]\<close> under the current \<open>sortDirection\<close>.
\<close>

definition sortCompare :: "host \<Rightarrow> string \<Rightarrow> jsval \<Rightarrow> jsval \<Rightarrow> jsnum" where
  "sortCompare h dir valA valB =
     (if strictEq valA valB then Fin 0
      else
        (let isNumA = \<not> isNaN (parseFloat h valA);
             isNumB = \<not> isNaN (parseFloat h valB)
         in if isNumA \<and> isNumB then
              (if dir = ''asc'' then js_sub (parseFloat h valA) (parseFloat h valB)
               else js_sub (parseFloat h valB) (parseFloat h valA))
            else
              (case (newDate h valA, newDate h valB) of
                 (Some dateA, Some dateB) \<Rightarrow>
                   (if dir = ''asc'' then Fin (of_int (dateA - dateB))
                    else Fin (of_int (dateB - dateA)))
               | _ \<Rightarrow>
                   (let strA = toString h (if truthy valA then valA else JStr []);
                        strB = toString h (if truthy valB then valB else JStr [])
                    in if dir = ''asc'' then Fin (of_int (localeCompare h strA strB))
                       else Fin (of_int (localeCompare h strB strA))))))"

definition rowCompare :: "host \<Rightarrow> string \<Rightarrow> string \<Rightarrow> (nat \<Rightarrow> row) \<Rightarrow> nat \<Rightarrow> nat \<Rightarrow> jsnum" where
  "rowCompare h dir fld hp a b = sortCompare h dir (getField (hp a) fld) (getField (hp b) fld)"

text \<open>
  \<open>Array.prototype.sort\<close> belongs to the runtime, so the sort is a parameter
  \<open>hsort\<close> of \<open>sortBy\<close>.
\<close>

definition sortData ::
  "((nat \<Rightarrow> nat \<Rightarrow> jsnum) \<Rightarrow> nat list \<Rightarrow> nat list) \<Rightarrow> host \<Rightarrow> string \<Rightarrow> string \<Rightarrow>
   (nat \<Rightarrow> row) \<Rightarrow> nat list \<Rightarrow> nat list" where
  "sortData hsort h dir fld hp d = hsort (rowCompare h dir fld hp) d"

text \<open>
  \<open>sortBy\<close> begins with \<open>this.tableElement.querySelector(`th[data-field="${field}"]`)\<close>:
  the field is pasted into the selector as it is. What the selector engine answers
  depends on the document and on how the text parses, so the \<open>querySelector\<close> of the
  table element is a parameter of \<open>sortBy\<close>: it throws a \<open>SyntaxError\<close> for a text
  that is no selector (a field with a double quote can make one), finds no element
  (\<open>null\<close>: no header cell carries the attribute value that the text denotes, which
  for a field with a backslash is not the field), or finds an element, named by a
  number. \<open>sortBy\<close> has no handler, so the exception leaves it before anything is
  changed; on \<open>null\<close> it returns at once.
\<close>

datatype query = Throws | NoElement | Found nat

datatype error = SyntaxError

definition headerSelector :: "string \<Rightarrow> string" where
  "headerSelector fld = ''th[data-field='' @ [CHR 0x22] @ fld @ [CHR 0x22] @ '']''"

text \<open>
  The body of \<open>sortBy\<close> once the element \<open>header\<close> has been found; \<open>sortIndicator\<close>
  records the element that was given the attribute \<open>data-sort-dir\<close>, and its value.
\<close>

definition sortFound ::
  "((nat \<Rightarrow> nat \<Rightarrow> jsnum) \<Rightarrow> nat list \<Rightarrow> nat list) \<Rightarrow> host \<Rightarrow> nat \<Rightarrow> string \<Rightarrow> tabelin \<Rightarrow> tabelin" where
  "sortFound hsort h header fld s =
     (let s1 = (if sortField s = fld
                then s\<lparr>sortDirection := (if sortDirection s = ''asc'' then ''desc'' else ''asc'')\<rparr>
                else s\<lparr>sortField := fld, sortDirection := ''asc''\<rparr>);
          s2 = s1\<lparr>sortIndicator := Some (header, sortDirection s1)\<rparr>
      in if serverSide (options s2) then loadData h (s2\<lparr>currentPage := 1, loadedRows := 0\<rparr>)
         else
           (let sorted = sortData hsort h (sortDirection s2) fld (heap s2) (data (options s2));
                s3 = s2\<lparr>options := (options s2)\<lparr>data := sorted\<rparr>\<rparr>
            in if infiniteScroll (options s3) \<or> lazyLoad (options s3)
               then loadData h (s3\<lparr>loadedRows := 0, hasMoreData := Some True\<rparr>)
               else loadData h (s3\<lparr>currentPage := 1\<rparr>)))"

definition sortBy ::
  "((nat \<Rightarrow> nat \<Rightarrow> jsnum) \<Rightarrow> nat list \<Rightarrow> nat list) \<Rightarrow> host \<Rightarrow> (string \<Rightarrow> query) \<Rightarrow>
   string \<Rightarrow> tabelin \<Rightarrow> error + tabelin" where
  "sortBy hsort h querySelector fld s =
     (case querySelector (headerSelector fld) of
        Throws \<Rightarrow> Inl SyntaxError
      | NoElement \<Rightarrow> Inr s
      | Found header \<Rightarrow> Inr (sortFound hsort h header fld s))"

text \<open>
  Three sorts a runtime may provide. All read the comparator as the language does (a
  result that is not a number counts as zero). The first is an insertion sort that
  never moves an element past one it compares equal to. The second moves it past, so
  elements that compare equal come out reversed, as an earlier runtime may leave them.
  The third looks for a run first, as the merge sorts of current runtimes do: an array
  that is one strictly descending run (each element compares less than the one before
  it) is reversed, any other array is sorted by the first sort.
\<close>

fun insertStable :: "('a \<Rightarrow> 'a \<Rightarrow> jsnum) \<Rightarrow> 'a \<Rightarrow> 'a list \<Rightarrow> 'a list" where
  "insertStable cmp x [] = [x]"
| "insertStable cmp x (y # ys) =
     (if js_gt (cmp x y) (Fin 0) then y # insertStable cmp x ys else x # y # ys)"

definition stableSort :: "('a \<Rightarrow> 'a \<Rightarrow> jsnum) \<Rightarrow> 'a list \<Rightarrow> 'a list" where
  "stableSort cmp xs = foldr (insertStable cmp) xs []"

fun insertAfterTies :: "('a \<Rightarrow> 'a \<Rightarrow> jsnum) \<Rightarrow> 'a \<Rightarrow> 'a list \<Rightarrow> 'a list" where
  "insertAfterTies cmp x [] = [x]"
| "insertAfterTies cmp x (y # ys) =
     (if js_lt (cmp x y) (Fin 0) then x # y # ys else y # insertAfterTies cmp x ys)"

definition unstableSort :: "('a \<Rightarrow> 'a \<Rightarrow> jsnum) \<Rightarrow> 'a list \<Rightarrow> 'a list" where
  "unstableSort cmp xs = foldr (insertAfterTies cmp) xs []"

definition runSort :: "('a \<Rightarrow> 'a \<Rightarrow> jsnum) \<Rightarrow> 'a list \<Rightarrow> 'a list" where
  "runSort cmp xs =
     (if successively (\<lambda>a b. js_lt (cmp b a) (Fin 0)) xs then rev xs else stableSort cmp xs)"

section \<open>Searching\<close>

text \<open>\<open>s.includes(q)\<close>: \<open>q\<close> occurs in \<open>s\<close> as a contiguous substring.\<close>

fun js_includes :: "string \<Rightarrow> string \<Rightarrow> bool" where
  "js_includes [] q = (q = [])"
| "js_includes (c # cs) q = (take (length q) (c # cs) = q \<or> js_includes cs q)"

definition rowMatches :: "host \<Rightarrow> column list \<Rightarrow> string \<Rightarrow> row \<Rightarrow> bool" where
  "rowMatches h cols lowercaseQuery r =
     list_ex (\<lambda>c. let v = getField r (field c) in
                 if v = Null \<or> v = Undefined then False
                 else js_includes (toLowerCase h (toString h v)) lowercaseQuery) cols"

definition search :: "host \<Rightarrow> string \<Rightarrow> tabelin \<Rightarrow> tabelin" where
  "search h query s =
     (let s1 = (if query = [] \<or> trim h query = []
                then s\<lparr>options := (options s)\<lparr>data := originalData s\<rparr>\<rparr>
                else
                  (let lowercaseQuery = toLowerCase h query in
                   s\<lparr>options := (options s)\<lparr>data :=
                        filter (\<lambda>a. rowMatches h (columns (options s)) lowercaseQuery (heap s a))
                          (originalData s)\<rparr>\<rparr>))
      in if infiniteScroll (options s1) \<or> lazyLoad (options s1)
         then loadData h (s1\<lparr>loadedRows := 0, hasMoreData := Some True\<rparr>)
         else loadData h (s1\<lparr>currentPage := 1,
                totalPages := ceilDiv (int (length (data (options s1)))) (pageSize (options s1))\<rparr>))"

section \<open>Version history\<close>

text \<open>
  The key of a cell is the template string \<open>`${rowIndex}:${columnField}`\<close>; an integer
  row index is printed in decimal.
\<close>

definition digitChar :: "nat \<Rightarrow> char" where
  "digitChar d = ''0123456789'' ! d"

fun natToString :: "nat \<Rightarrow> string" where
  "natToString n =
     (if n < 10 then [digitChar n] else natToString (n div 10) @ [digitChar (n mod 10)])"

declare natToString.simps [simp del]

definition intToString :: "int \<Rightarrow> string" where
  "intToString i = (if i < 0 then CHR ''-'' # natToString (nat (- i)) else natToString (nat i))"

definition cellKey :: "int \<Rightarrow> string \<Rightarrow> string" where
  "cellKey rowIndex columnField = intToString rowIndex @ '':'' @ columnField"

definition unknownUser :: user where
  "unknownUser = \<lparr>user_id = Undefined, user_name = JStr ''Unknown User'', user_color = Undefined\<rparr>"

text \<open>
  \<open>addToVersionHistory\<close>; \<open>now\<close> is the value of \<open>Date.now()\<close> at the call. The array
  of the cell is created on first use and then changed in place: \<open>push\<close>, and one
  \<open>shift\<close> when the length exceeds \<open>maxVersions\<close>.
\<close>

definition addToVersionHistory ::
  "int \<Rightarrow> string \<Rightarrow> jsval \<Rightarrow> user option \<Rightarrow> int \<Rightarrow> tabelin \<Rightarrow> tabelin" where
  "addToVersionHistory rowIndex columnField val usr now s =
     (if \<not> versionHistory (options s) then s
      else
        (let key = cellKey rowIndex columnField;
             s1 = (if cellVersions s key = None
                   then s\<lparr>cellVersions := (cellVersions s)(key \<mapsto> nextArray s),
                          versionArrays := (versionArrays s)(nextArray s := []),
                          nextArray := Suc (nextArray s)\<rparr>
                   else s)
         in case cellVersions s1 key of
              None \<Rightarrow> s1
            | Some versions \<Rightarrow>
                (let pushed = versionArrays s1 versions @
                       [\<lparr>v_value = val, v_timestamp = now,
                         v_user = (case usr of Some u \<Rightarrow> u | None \<Rightarrow> unknownUser)\<rparr>];
                     limited = (if length pushed > maxVersions (options s1)
                                then tl pushed else pushed)
                 in s1\<lparr>versionArrays := (versionArrays s1)(versions := limited)\<rparr>)))"

text \<open>
  \<open>getCellVersionHistory\<close> returns a reference: the array stored under the key, or a
  new empty array that nothing else refers to.
\<close>

datatype versions_ref = Stored nat | FreshEmpty

definition getCellVersionHistory :: "int \<Rightarrow> string \<Rightarrow> tabelin \<Rightarrow> versions_ref" where
  "getCellVersionHistory rowIndex columnField s =
     (case cellVersions s (cellKey rowIndex columnField) of
        Some a \<Rightarrow> Stored a
      | None \<Rightarrow> FreshEmpty)"

definition deref :: "tabelin \<Rightarrow> versions_ref \<Rightarrow> version list" where
  "deref s r = (case r of Stored a \<Rightarrow> versionArrays s a | FreshEmpty \<Rightarrow> [])"

text \<open>The history a cell has in store, read through its key.\<close>

definition storedHistory :: "tabelin \<Rightarrow> int \<Rightarrow> string \<Rightarrow> version list" where
  "storedHistory s rowIndex columnField =
     (case cellVersions s (cellKey rowIndex columnField) of
        Some a \<Rightarrow> versionArrays s a
      | None \<Rightarrow> [])"

text \<open>
  \<open>showVersionHistory\<close>: the comparator is \<open>(a, b) => b.timestamp - a.timestamp\<close>, and
  \<open>versions.sort\<close> (the runtime's sort, the parameter \<open>hsort\<close>) works on the array
  that \<open>getCellVersionHistory\<close> returned.
\<close>

definition newestFirst :: "version \<Rightarrow> version \<Rightarrow> jsnum" where
  "newestFirst a b = Fin (of_int (v_timestamp b - v_timestamp a))"

definition showVersionHistory ::
  "((version \<Rightarrow> version \<Rightarrow> jsnum) \<Rightarrow> version list \<Rightarrow> version list) \<Rightarrow>
   int \<Rightarrow> string \<Rightarrow> tabelin \<Rightarrow> tabelin" where
  "showVersionHistory hsort rowIndex columnField s =
     (let versions = getCellVersionHistory rowIndex columnField s in
      if length (deref s versions) = 0
      then s\<lparr>alerts := alerts s @ [''No version history available for this cell.'']\<rparr>
      else
        (case versions of
           FreshEmpty \<Rightarrow> s
         | Stored a \<Rightarrow>
             (let sorted = hsort newestFirst (versionArrays s a);
                  s1 = s\<lparr>versionArrays := (versionArrays s)(a := sorted)\<rparr>
              in s1\<lparr>dialogs := dialogs s1 @
                     [map (\<lambda>(index, v). (length sorted - index, v, index > 0))
                        (enumerate 0 sorted)]\<rparr>)))"

section \<open>Collaboration\<close>

fun findIndex :: "('a \<Rightarrow> bool) \<Rightarrow> 'a list \<Rightarrow> nat option" where
  "findIndex P [] = None"
| "findIndex P (x # xs) = (if P x then Some 0 else map_option Suc (findIndex P xs))"

text \<open>
  \<open>tbody.querySelector(`tr[data-row-index="${rowIndex}"]`)\<close> finds the first row with
  the attribute; the cell at \<open>columnIndex\<close> of that row, when there is one, gets the
  new text. Assigning \<open>null\<close> or \<open>undefined\<close> to \<open>textContent\<close> empties the cell.
\<close>

definition domText :: "host \<Rightarrow> jsval \<Rightarrow> string" where
  "domText h v = (if v = Null \<or> v = Undefined then [] else toString h v)"

fun setCellOfFirstRow :: "int \<Rightarrow> nat \<Rightarrow> string \<Rightarrow> dom_row list \<Rightarrow> dom_row list" where
  "setCellOfFirstRow rowIndex columnIndex txt [] = []"
| "setCellOfFirstRow rowIndex columnIndex txt (r # rs) =
     (if rowIndexAttr r = Some rowIndex
      then (if columnIndex < length (cells r)
            then r\<lparr>cells := (cells r)[columnIndex := txt]\<rparr> # rs else r # rs)
      else r # setCellOfFirstRow rowIndex columnIndex txt rs)"

definition updateCellFromCollaboration ::
  "host \<Rightarrow> int \<Rightarrow> string \<Rightarrow> jsval \<Rightarrow> user option \<Rightarrow> int \<Rightarrow> tabelin \<Rightarrow> tabelin" where
  "updateCellFromCollaboration h rowIndex columnField val usr now s =
     (if (case (usr, collaborationUser (options s)) of
            (Some u, Some localUser) \<Rightarrow> strictEq (user_id u) (user_id localUser)
          | _ \<Rightarrow> False)
      then s
      else
        (case findIndex (\<lambda>col. field col = columnField) (columns (options s)) of
           None \<Rightarrow> s
         | Some columnIndex \<Rightarrow>
             (if 0 \<le> rowIndex \<and> rowIndex < int (length (data (options s))) then
                (let a = data (options s) ! nat rowIndex;
                     s1 = s\<lparr>heap := (heap s)(a := (heap s a)(columnField \<mapsto> val))\<rparr>;
                     col = columns (options s1) ! columnIndex;
                     txt = (case render col of
                              Some f \<Rightarrow> f val (heap s1 a)
                            | None \<Rightarrow> domText h val);
                     s2 = s1\<lparr>tbody := setCellOfFirstRow rowIndex columnIndex txt (tbody s1)\<rparr>
                 in if versionHistory (options s2)
                    then addToVersionHistory rowIndex columnField val usr now s2
                    else s2)
              else s)))"

text \<open>
  An inbound message: its \<open>type\<close> and the fields a cell change carries, each possibly
  absent. Presence and cursor messages change the roster and the cursor overlay only.
\<close>

record message =
  m_type :: string
  m_rowIndex :: "int option"
  m_columnField :: "string option"
  m_value :: jsval
  m_user :: "user option"

definition handleCollaborationMessage :: "host \<Rightarrow> message \<Rightarrow> int \<Rightarrow> tabelin \<Rightarrow> tabelin" where
  "handleCollaborationMessage h m now s =
     (if m_type m = [] then s
      else if m_type m = ''cell-change'' then
        (case (m_rowIndex m, m_columnField m) of
           (Some rowIndex, Some columnField) \<Rightarrow>
             (if m_value m \<noteq> Undefined
              then updateCellFromCollaboration h rowIndex columnField (m_value m) (m_user m) now s
              else s)
         | _ \<Rightarrow> s)
      else s)"

section \<open>Rules engine\<close>

text \<open>
  The operand of a condition is a primitive, an array of primitives, or a function
  (with its source text, which is what the function converts to). A predicate that
  throws is \<open>None\<close>; \<open>evaluateCondition\<close> catches every exception and answers
  \<open>false\<close>.
\<close>

datatype cond_value =
    CVal jsval
  | CArr "jsval list"
  | CFun string "jsval \<Rightarrow> row \<Rightarrow> column option \<Rightarrow> bool option"

record condition =
  operator :: string
  c_value :: cond_value

fun joinWith :: "string \<Rightarrow> string list \<Rightarrow> string" where
  "joinWith sep [] = []"
| "joinWith sep [x] = x"
| "joinWith sep (x # y # ys) = x @ sep @ joinWith sep (y # ys)"

definition toPrimitive :: "host \<Rightarrow> cond_value \<Rightarrow> jsval" where
  "toPrimitive h cv = (case cv of
       CVal v \<Rightarrow> v
     | CArr vs \<Rightarrow> JStr (joinWith '','' (map (domText h) vs))
     | CFun src f \<Rightarrow> JStr src)"

definition numEq :: "jsnum \<Rightarrow> jsnum \<Rightarrow> bool" where
  "numEq a b = (a = b \<and> a \<noteq> NaN)"

definition isNullish :: "jsval \<Rightarrow> bool" where
  "isNullish v = (v = Null \<or> v = Undefined)"

text \<open>\<open>a == b\<close> between a primitive and the primitive form of the operand.\<close>

definition looseEq :: "host \<Rightarrow> jsval \<Rightarrow> jsval \<Rightarrow> bool" where
  "looseEq h a b =
     (if isNullish a \<and> isNullish b then True
      else if isNullish a \<or> isNullish b then False
      else (case (a, b) of
              (JStr x, JStr y) \<Rightarrow> x = y
            | _ \<Rightarrow> numEq (toNumber h a) (toNumber h b)))"

definition condLooseEq :: "host \<Rightarrow> jsval \<Rightarrow> cond_value \<Rightarrow> bool" where
  "condLooseEq h v cv = (case cv of
       CVal w \<Rightarrow> looseEq h v w
     | _ \<Rightarrow> \<not> isNullish v \<and> looseEq h v (toPrimitive h cv))"

definition condStrictEq :: "jsval \<Rightarrow> cond_value \<Rightarrow> bool" where
  "condStrictEq v cv = (case cv of CVal w \<Rightarrow> strictEq v w | _ \<Rightarrow> False)"

definition startsWith :: "string \<Rightarrow> string \<Rightarrow> bool" where
  "startsWith s p = (take (length p) s = p)"

definition endsWith :: "string \<Rightarrow> string \<Rightarrow> bool" where
  "endsWith s p = (length p \<le> length s \<and> drop (length s - length p) s = p)"

definition evaluateCondition ::
  "host \<Rightarrow> condition option \<Rightarrow> row \<Rightarrow> column option \<Rightarrow> jsval \<Rightarrow> bool" where
  "evaluateCondition h cond r col val =
     (case cond of
        None \<Rightarrow> False
      | Some c \<Rightarrow>
          (let op = operator c; cv = c_value c in
           if op = ''='' \<or> op = ''=='' then condLooseEq h val cv
           else if op = ''==='' then condStrictEq val cv
           else if op = ''!='' \<or> op = ''<>'' then \<not> condLooseEq h val cv
           else if op = ''!=='' then \<not> condStrictEq val cv
           else if op = ''>'' then js_gt (toNumber h val) (toNumber h (toPrimitive h cv))
           else if op = ''>='' then js_ge (toNumber h val) (toNumber h (toPrimitive h cv))
           else if op = ''<'' then js_lt (toNumber h val) (toNumber h (toPrimitive h cv))
           else if op = ''<='' then js_le (toNumber h val) (toNumber h (toPrimitive h cv))
           else if op = ''contains''
             then js_includes (toString h val) (toString h (toPrimitive h cv))
           else if op = ''not_contains''
             then \<not> js_includes (toString h val) (toString h (toPrimitive h cv))
           else if op = ''starts_with''
             then startsWith (toString h val) (toString h (toPrimitive h cv))
           else if op = ''ends_with''
             then endsWith (toString h val) (toString h (toPrimitive h cv))
           else if op = ''regex'' then
             (case regExpTest h
                     (if toPrimitive h cv = Undefined then [] else toString h (toPrimitive h cv))
                     (toString h val) of
                Some b \<Rightarrow> b | None \<Rightarrow> False)
           else if op = ''in'' then (case cv of CArr vs \<Rightarrow> val \<in> set vs | _ \<Rightarrow> False)
           else if op = ''not_in'' then (case cv of CArr vs \<Rightarrow> val \<notin> set vs | _ \<Rightarrow> False)
           else if op = ''is_null'' then val = Null \<or> val = Undefined
           else if op = ''is_not_null'' then val \<noteq> Null \<and> val \<noteq> Undefined
           else if op = ''is_empty'' then val = JStr [] \<or> val = Null \<or> val = Undefined
           else if op = ''is_not_empty''
             then val \<noteq> JStr [] \<and> val \<noteq> Null \<and> val \<noteq> Undefined
           else if op = ''function'' then
             (case cv of
                CFun src f \<Rightarrow> (case f val r col of Some b \<Rightarrow> b | None \<Rightarrow> False)
              | _ \<Rightarrow> False)
           else False))"

section \<open>Histories of operations\<close>

text \<open>
  The page-size selector of the pagination bar assigns \<open>options.pageSize\<close>, returns
  to the first page and loads.
\<close>

definition changePageSize :: "host \<Rightarrow> int \<Rightarrow> tabelin \<Rightarrow> tabelin" where
  "changePageSize h n s =
     loadData h (s\<lparr>options := (options s)\<lparr>pageSize := n\<rparr>, currentPage := 1\<rparr>)"

text \<open>
  The search box of a server-side table stores the term, returns to the first page
  and loads (after its debounce delay).
\<close>

definition serverSearchInput :: "host \<Rightarrow> string \<Rightarrow> tabelin \<Rightarrow> tabelin" where
  "serverSearchInput h q s =
     loadData h (s\<lparr>searchTerm := q, currentPage := 1, loadedRows := 0\<rparr>)"

text \<open>
  The states an instance can be in: the constructed table, then any sequence of calls
  of its operations and of continuations of its pending requests.
\<close>

inductive reachable :: "host \<Rightarrow> tabelin \<Rightarrow> bool" for h :: host where
  r_construct: "reachable h (construct h opts hp)"
| r_loadData: "reachable h s \<Longrightarrow> reachable h (loadData h s)"
| r_loadMore: "reachable h s \<Longrightarrow> reachable h (loadMore h s)"
| r_nextPage: "reachable h s \<Longrightarrow> reachable h (nextPage h s)"
| r_prevPage: "reachable h s \<Longrightarrow> reachable h (prevPage h s)"
| r_goToPage: "reachable h s \<Longrightarrow> reachable h (goToPage h page s)"
| r_refresh: "reachable h s \<Longrightarrow> reachable h (refresh h s)"
| r_changePageSize: "reachable h s \<Longrightarrow> reachable h (changePageSize h n s)"
| r_search: "reachable h s \<Longrightarrow> reachable h (search h query s)"
| r_serverSearch: "reachable h s \<Longrightarrow> reachable h (serverSearchInput h q s)"
| r_sortBy: "reachable h s \<Longrightarrow> sortBy hsort h querySelector fld s = Inr s' \<Longrightarrow> reachable h s'"
| r_response: "reachable h s \<Longrightarrow> inFlight s \<noteq> [] \<Longrightarrow> reachable h (onServerResponse h r s)"
| r_error: "reachable h s \<Longrightarrow> inFlight s \<noteq> [] \<Longrightarrow> reachable h (onServerError msg s)"
| r_message: "reachable h s \<Longrightarrow> reachable h (handleCollaborationMessage h m now s)"
| r_addVersion:
    "reachable h s \<Longrightarrow> reachable h (addToVersionHistory rowIndex columnField val usr now s)"
| r_showHistory:
    "reachable h s \<Longrightarrow> reachable h (showVersionHistory vsort rowIndex columnField s)"

text \<open>
  At most one request is awaiting its response, and the table is busy while one is.
\<close>

definition oneInFlight :: "tabelin \<Rightarrow> bool" where
  "oneInFlight s = (length (inFlight s) \<le> 1 \<and> (inFlight s \<noteq> [] \<longrightarrow> isBusy s))"

text \<open>
  A sequence of recorded edits: each is one call of \<open>addToVersionHistory\<close>, with the
  clock value read by that call.
\<close>

record edit =
  e_row :: int
  e_field :: string
  e_value :: jsval
  e_user :: "user option"
  e_time :: int

definition recordEdit :: "edit \<Rightarrow> tabelin \<Rightarrow> tabelin" where
  "recordEdit e s = addToVersionHistory (e_row e) (e_field e) (e_value e) (e_user e) (e_time e) s"

definition recordEdits :: "edit list \<Rightarrow> tabelin \<Rightarrow> tabelin" where
  "recordEdits es s = fold recordEdit es s"

definition entryOf :: "edit \<Rightarrow> version" where
  "entryOf e = \<lparr>v_value = e_value e, v_timestamp = e_time e,
                v_user = (case e_user e of Some u \<Rightarrow> u | None \<Rightarrow> unknownUser)\<rparr>"

definition editsOf :: "int \<Rightarrow> string \<Rightarrow> edit list \<Rightarrow> edit list" where
  "editsOf rowIndex columnField es = filter (\<lambda>e. e_row e = rowIndex \<and> e_field e = columnField) es"

text \<open>
  The store of version arrays is well formed when every reference in \<open>cellVersions\<close>
  has been allocated and no two keys share an array.
\<close>

definition wfVersions :: "tabelin \<Rightarrow> bool" where
  "wfVersions s =
     ((\<forall>k a. cellVersions s k = Some a \<longrightarrow> a < nextArray s) \<and>
      (\<forall>k k' a. cellVersions s k = Some a \<and> cellVersions s k' = Some a \<longrightarrow> k = k'))"

text \<open>
  The match predicate of a search in the words of the specification: some column's
  stringified value contains the lowercased query. It is compared with \<open>rowMatches\<close>,
  the predicate of the source.
\<close>

definition specMatches :: "host \<Rightarrow> column list \<Rightarrow> string \<Rightarrow> row \<Rightarrow> bool" where
  "specMatches h cols query r =
     list_ex (\<lambda>c. js_includes (toString h (getField r (field c))) (toLowerCase h query)) cols"

text \<open>
  What \<open>push\<close> followed by the conditional \<open>shift\<close> leaves of an array, and the
  last \<open>n\<close> elements of a list.
\<close>

definition limitTo :: "nat \<Rightarrow> 'a list \<Rightarrow> 'a list" where
  "limitTo n xs = (if length xs > n then tl xs else xs)"

definition keepLast :: "nat \<Rightarrow> 'a list \<Rightarrow> 'a list" where
  "keepLast n xs = drop (length xs - n) xs"

text \<open>
  What the language asks of \<open>Array.prototype.sort\<close> (ECMAScript 2019). A sort reads
  the result \<open>v\<close> of the comparator for \<open>(a, b)\<close> as \<open>a\<close> before \<open>b\<close> when \<open>v < 0\<close>, as
  \<open>a\<close> after \<open>b\<close> when \<open>v > 0\<close>, and as a tie otherwise (zero, or not a number). The
  comparator is a consistent comparison function for a set of values when ties are
  reflexive, symmetric and transitive and both \<open>before\<close> and \<open>after\<close> are transitive.
  For such a comparator the result of the sort is a permutation of the array in which
  no element stands before one it comes after, and elements that tie stand in their
  original order; for any other comparator the order is left to the runtime.
\<close>

definition cmpLess :: "('a \<Rightarrow> 'a \<Rightarrow> jsnum) \<Rightarrow> 'a \<Rightarrow> 'a \<Rightarrow> bool" where
  "cmpLess cmp a b = js_lt (cmp a b) (Fin 0)"

definition cmpGreater :: "('a \<Rightarrow> 'a \<Rightarrow> jsnum) \<Rightarrow> 'a \<Rightarrow> 'a \<Rightarrow> bool" where
  "cmpGreater cmp a b = js_gt (cmp a b) (Fin 0)"

definition cmpEquiv :: "('a \<Rightarrow> 'a \<Rightarrow> jsnum) \<Rightarrow> 'a \<Rightarrow> 'a \<Rightarrow> bool" where
  "cmpEquiv cmp a b = (\<not> cmpLess cmp a b \<and> \<not> cmpGreater cmp a b)"

definition consistentOn :: "('a \<Rightarrow> 'a \<Rightarrow> jsnum) \<Rightarrow> 'a set \<Rightarrow> bool" where
  "consistentOn cmp S =
     (\<forall>a\<in>S. \<forall>b\<in>S. \<forall>c\<in>S.
        cmpEquiv cmp a a
      \<and> (cmpEquiv cmp a b \<longrightarrow> cmpEquiv cmp b a)
      \<and> (cmpEquiv cmp a b \<and> cmpEquiv cmp b c \<longrightarrow> cmpEquiv cmp a c)
      \<and> (cmpLess cmp a b \<and> cmpLess cmp b c \<longrightarrow> cmpLess cmp a c)
      \<and> (cmpGreater cmp a b \<and> cmpGreater cmp b c \<longrightarrow> cmpGreater cmp a c))"

definition sortedBy :: "('a \<Rightarrow> 'a \<Rightarrow> jsnum) \<Rightarrow> 'a list \<Rightarrow> bool" where
  "sortedBy cmp xs = sorted_wrt (\<lambda>a b. \<not> cmpLess cmp b a) xs"

definition keepsTies :: "('a \<Rightarrow> 'a \<Rightarrow> jsnum) \<Rightarrow> 'a list \<Rightarrow> 'a list \<Rightarrow> bool" where
  "keepsTies cmp xs ys = (\<forall>x\<in>set xs. filter (cmpEquiv cmp x) ys = filter (cmpEquiv cmp x) xs)"

definition conformingSort :: "(('a \<Rightarrow> 'a \<Rightarrow> jsnum) \<Rightarrow> 'a list \<Rightarrow> 'a list) \<Rightarrow> bool" where
  "conformingSort hsort =
     (\<forall>cmp xs. consistentOn cmp (set xs) \<longrightarrow>
        mset (hsort cmp xs) = mset xs
      \<and> sortedBy cmp (hsort cmp xs)
      \<and> keepsTies cmp xs (hsort cmp xs))"

text \<open>A list of versions from the newest to the oldest.\<close>

definition newestFirstOrder :: "version list \<Rightarrow> bool" where
  "newestFirstOrder vs = sorted_wrt (\<lambda>x y. v_timestamp y \<le> v_timestamp x) vs"

section \<open>A sample runtime and sample tables\<close>

text \<open>
  A small runtime for evaluating the model on concrete inputs. It agrees with
  JavaScript on what the examples below use: ASCII letters, decimal literals without
  exponent, integers printed in decimal, strings of lower-case letters compared in
  alphabetical order, strings that are not dates. It parses no date string and accepts
  only patterns made of letters and digits.
\<close>

definition lowerChar :: "char \<Rightarrow> char" where
  "lowerChar c =
     (case map_of (zip ''ABCDEFGHIJKLMNOPQRSTUVWXYZ'' ''abcdefghijklmnopqrstuvwxyz'') c of
        Some d \<Rightarrow> d | None \<Rightarrow> c)"

definition isSpace :: "char \<Rightarrow> bool" where
  "isSpace c = (c \<in> set [CHR '' '', CHR 0x09, CHR 0x0A, CHR 0x0B, CHR 0x0C, CHR 0x0D])"

definition asciiTrim :: "string \<Rightarrow> string" where
  "asciiTrim s = rev (dropWhile isSpace (rev (dropWhile isSpace s)))"

definition digitValue :: "char \<Rightarrow> nat option" where
  "digitValue c = map_of (zip ''0123456789'' [0, 1, 2, 3, 4, 5, 6, 7, 8, 9]) c"

definition isDigit :: "char \<Rightarrow> bool" where
  "isDigit c = (digitValue c \<noteq> None)"

definition digitsValue :: "string \<Rightarrow> nat" where
  "digitsValue ds = foldl (\<lambda>acc c. 10 * acc + (case digitValue c of Some d \<Rightarrow> d | None \<Rightarrow> 0)) 0 ds"

text \<open>
  The longest decimal literal at the start of a string, as a number, with the rest of
  the string.
\<close>

definition decimalPrefix :: "string \<Rightarrow> (rat \<times> string) option" where
  "decimalPrefix t =
     (let (neg, u) = (case t of
                        [] \<Rightarrow> (False, [])
                      | c # r \<Rightarrow> (if c = CHR ''-'' then (True, r)
                                  else if c = CHR ''+'' then (False, r) else (False, t)));
          ip = takeWhile isDigit u;
          afterInt = dropWhile isDigit u;
          fp = (case afterInt of
                  [] \<Rightarrow> []
                | c # r \<Rightarrow> (if c = CHR ''.'' then takeWhile isDigit r else []));
          rest = (case afterInt of
                    [] \<Rightarrow> []
                  | c # r \<Rightarrow> (if c = CHR ''.'' \<and> (ip \<noteq> [] \<or> fp \<noteq> [])
                              then dropWhile isDigit r else afterInt));
          m = of_nat (digitsValue ip) + of_nat (digitsValue fp) / 10 ^ length fp
      in if ip = [] \<and> fp = [] then None else Some (if neg then - m else m, rest))"

definition asciiParseFloat :: "string \<Rightarrow> jsnum" where
  "asciiParseFloat s = (case decimalPrefix (dropWhile isSpace s) of
       None \<Rightarrow> NaN | Some (m, rest) \<Rightarrow> Fin m)"

definition asciiToNumber :: "string \<Rightarrow> jsnum" where
  "asciiToNumber s =
     (let t = asciiTrim s in
      if t = [] then Fin 0
      else (case decimalPrefix t of
              None \<Rightarrow> NaN
            | Some (m, rest) \<Rightarrow> (if rest = [] then Fin m else NaN)))"

fun fracDigits :: "nat \<Rightarrow> rat \<Rightarrow> string" where
  "fracDigits 0 x = []"
| "fracDigits (Suc n) x =
     (if x = 0 then []
      else digitChar (nat \<lfloor>x * 10\<rfloor>) # fracDigits n (x * 10 - of_int \<lfloor>x * 10\<rfloor>))"

definition asciiNumberToString :: "rat \<Rightarrow> string" where
  "asciiNumberToString r =
     (if of_int \<lfloor>r\<rfloor> = r then intToString \<lfloor>r\<rfloor>
      else (if r < 0 then ''-'' else []) @ natToString (nat \<lfloor>\<bar>r\<bar>\<rfloor>) @ ''.'' @
           fracDigits 6 (\<bar>r\<bar> - of_int \<lfloor>\<bar>r\<bar>\<rfloor>))"

fun asciiCompare :: "string \<Rightarrow> string \<Rightarrow> int" where
  "asciiCompare [] [] = 0"
| "asciiCompare [] (y # ys) = - 1"
| "asciiCompare (x # xs) [] = 1"
| "asciiCompare (x # xs) (y # ys) =
     (if (of_char x :: nat) < of_char y then - 1
      else if (of_char y :: nat) < of_char x then 1
      else asciiCompare xs ys)"

definition isAlnum :: "char \<Rightarrow> bool" where
  "isAlnum c = (isDigit c \<or> lowerChar c \<in> set ''abcdefghijklmnopqrstuvwxyz'')"

definition asciiHost :: host where
  "asciiHost =
     \<lparr>parseFloatStr = asciiParseFloat,
      stringToNumber = asciiToNumber,
      dateParse = (\<lambda>s. None),
      numberToString = asciiNumberToString,
      localeCompare = asciiCompare,
      toLowerCase = map lowerChar,
      trim = asciiTrim,
      regExpTest = (\<lambda>pat s. if list_all isAlnum pat then Some (js_includes s pat) else None)\<rparr>"

text \<open>The defaults of the constructor, and a table of 25 rows with one column.\<close>

definition defaultOptions :: tabelin_options where
  "defaultOptions =
     \<lparr>data = [], columns = [], pageSize = 10, serverSide = False, serverParams = None,
      lazyLoad = False, infiniteScroll = False, collaborationUser = None,
      versionHistory = False, maxVersions = 10\<rparr>"

definition idColumn :: column where
  "idColumn = \<lparr>field = ''id'', render = None\<rparr>"

definition numberedRows :: "nat \<Rightarrow> row" where
  "numberedRows a = [''id'' \<mapsto> JNum (Fin (of_nat (Suc a)))]"

definition table25 :: tabelin where
  "table25 = construct asciiHost
     (defaultOptions\<lparr>data := [0..<25], columns := [idColumn]\<rparr>) numberedRows"

definition emptyTable :: tabelin where
  "emptyTable = construct asciiHost (defaultOptions\<lparr>columns := [idColumn]\<rparr>) numberedRows"

text \<open>The 25-row table on its last page, and a server-side table awaiting its first response.\<close>

definition page3of25 :: tabelin where
  "page3of25 = goToPage asciiHost 3 table25"

definition busyTable :: tabelin where
  "busyTable = construct asciiHost
     (defaultOptions\<lparr>columns := [idColumn], serverSide := True\<rparr>) numberedRows"

text \<open>A collaborative table of the local user Alice, and two inbound cell changes.\<close>

definition alice :: user where
  "alice = \<lparr>user_id = JStr ''u1'', user_name = JStr ''Alice'', user_color = Undefined\<rparr>"

definition bob :: user where
  "bob = \<lparr>user_id = JStr ''u2'', user_name = JStr ''Bob'', user_color = Undefined\<rparr>"

definition collabTable :: tabelin where
  "collabTable = construct asciiHost
     (defaultOptions\<lparr>data := [0..<25], columns := [idColumn],
        collaborationUser := Some alice, versionHistory := True\<rparr>) numberedRows"

definition echoMessage :: message where
  "echoMessage = \<lparr>m_type = ''cell-change'', m_rowIndex = Some 0, m_columnField = Some ''id'',
     m_value = JNum (Fin 99), m_user = Some alice\<rparr>"

definition remoteMessage :: message where
  "remoteMessage = echoMessage\<lparr>m_user := Some bob\<rparr>"

text \<open>A table to search: one row holds an upper-case name, the other \<open>null\<close>.\<close>

definition nameColumn :: column where
  "nameColumn = \<lparr>field = ''name'', render = None\<rparr>"

definition searchRows :: "nat \<Rightarrow> row" where
  "searchRows a = (if a = 0 then [''name'' \<mapsto> JStr ''HELLO''] else [''name'' \<mapsto> Null])"

definition searchTable :: tabelin where
  "searchTable = construct asciiHost
     (defaultOptions\<lparr>data := [0, 1], columns := [nameColumn]\<rparr>) searchRows"

text \<open>A table whose two rows have the same sort key.\<close>

definition keyColumn :: column where
  "keyColumn = \<lparr>field = ''k'', render = None\<rparr>"

definition tieRows :: "nat \<Rightarrow> row" where
  "tieRows a = [''k'' \<mapsto> JNum (Fin 1), ''n'' \<mapsto> JNum (Fin (of_nat a))]"

text \<open>
  A sample of the selector engine for the selectors \<open>sortBy\<close> builds on a table with
  the header cells of \<open>cols\<close>: for a field without double quote, backslash, line break
  or null character the selector denotes the field itself, and the answer is the first
  header cell whose \<open>data-field\<close> is the field. The sample is not meant for any other
  text, which it answers as one that does not parse.
\<close>

definition plainChar :: "char \<Rightarrow> bool" where
  "plainChar c = (c \<notin> set [CHR 0x22, CHR 0x5C, CHR 0x0A, CHR 0x0C, CHR 0x0D, CHR 0x00])"

definition headerQuery :: "column list \<Rightarrow> string \<Rightarrow> query" where
  "headerQuery cols sel =
     (let fld = take (length sel - 17) (drop 15 sel) in
      if sel = headerSelector fld \<and> list_all plainChar fld
      then (case findIndex (\<lambda>c. field c = fld) cols of Some i \<Rightarrow> Found i | None \<Rightarrow> NoElement)
      else Throws)"

definition tieTable :: tabelin where
  "tieTable = construct asciiHost
     (defaultOptions\<lparr>data := [0, 1], columns := [keyColumn]\<rparr>) tieRows"

text \<open>A table that keeps two versions per cell, and three edits of one cell.\<close>

definition versionTable :: tabelin where
  "versionTable = construct asciiHost
     (defaultOptions\<lparr>data := [0..<25], columns := [idColumn],
        versionHistory := True, maxVersions := 2\<rparr>) numberedRows"

definition editAt :: "int \<Rightarrow> jsval \<Rightarrow> edit" where
  "editAt t v = \<lparr>e_row = 0, e_field = ''id'', e_value = v, e_user = Some alice, e_time = t\<rparr>"

definition threeEdits :: "edit list" where
  "threeEdits = [editAt 1 (JStr ''v1''), editAt 2 (JStr ''v2''), editAt 3 (JStr ''v3'')]"

definition twoEdits :: "edit list" where
  "twoEdits = [editAt 1 (JStr ''v1''), editAt 2 (JStr ''v2'')]"

definition sameTimeEdits :: "edit list" where
  "sameTimeEdits = [editAt 5 (JStr ''v1''), editAt 5 (JStr ''v2'')]"


text \<open>A column of mixed values: \<open>true\<close>, \<open>'a'\<close>, \<open>5\<close>, \<open>true\<close>.\<close>

definition cycleRows :: "nat \<Rightarrow> row" where
  "cycleRows a = [''k'' \<mapsto> (if a = 1 then JStr ''a'' else if a = 2 then JNum (Fin 5) else JBool True)]"

definition ageRule :: condition where
  "ageRule = \<lparr>operator = ''>='', c_value = CVal (JNum (Fin 18))\<rparr>"

section \<open>What the operations leave unchanged\<close>

lemma renderData_fields [simp]:
  "options (renderData h rows s) = options s"
  "currentPage (renderData h rows s) = currentPage s"
  "totalPages (renderData h rows s) = totalPages s"
  "isBusy (renderData h rows s) = isBusy s"
  "inFlight (renderData h rows s) = inFlight s"
  by (simp_all add: renderData_def)

lemma appendData_fields [simp]:
  "options (appendData h rows s) = options s"
  "inFlight (appendData h rows s) = inFlight s"
  "isBusy (appendData h rows s) = isBusy s"
  by (simp_all add: appendData_def Let_def)

lemma updatePaginationInfo_fields [simp]:
  "options (updatePaginationInfo s) = options s"
  "currentPage (updatePaginationInfo s) = currentPage s"
  "totalPages (updatePaginationInfo s) = totalPages s"
  "isBusy (updatePaginationInfo s) = isBusy s"
  "totalRecords (updatePaginationInfo s) = totalRecords s"
  "tbody (updatePaginationInfo s) = tbody s"
  "inFlight (updatePaginationInfo s) = inFlight s"
  by (simp_all add: updatePaginationInfo_def Let_def)

lemma updatePaginationInfo_frame [simp]:
  "originalData (updatePaginationInfo s) = originalData s"
  "heap (updatePaginationInfo s) = heap s"
  "cellVersions (updatePaginationInfo s) = cellVersions s"
  "versionArrays (updatePaginationInfo s) = versionArrays s"
  "nextArray (updatePaginationInfo s) = nextArray s"
  by (simp_all add: updatePaginationInfo_def Let_def)

lemma loadData_frame [simp]:
  "options (loadData h s) = options s"
  "originalData (loadData h s) = originalData s"
  "heap (loadData h s) = heap s"
  "cellVersions (loadData h s) = cellVersions s"
  "versionArrays (loadData h s) = versionArrays s"
  "nextArray (loadData h s) = nextArray s"
  by (simp_all add: loadData_def loadServerData_def loadClientData_def Let_def
      renderData_def appendData_def updatePaginationInfo_def)

section \<open>Pagination\<close>

lemma loadData_paged_client:
  assumes "\<not> isBusy s" "\<not> serverSide (options s)"
    "\<not> infiniteScroll (options s)" "\<not> lazyLoad (options s)"
  shows "loadData h s =
     (updatePaginationInfo
        ((renderData h (map (heap s) (pageData s)) (s\<lparr>isBusy := True, loading := True\<rparr>))
           \<lparr>totalRecords := int (length (data (options s))),
            totalPages := ceilDiv (int (length (data (options s)))) (pageSize (options s))\<rparr>))
        \<lparr>isBusy := False, loading := False\<rparr>"
  using assms by (simp add: loadData_def loadClientData_def Let_def pageData_def renderData_def)

text \<open>What a load leaves behind in a paged, client-side table that is not busy.\<close>

lemma loadData_paged_client_fields:
  assumes "\<not> isBusy s" "\<not> serverSide (options s)"
    "\<not> infiniteScroll (options s)" "\<not> lazyLoad (options s)"
  shows "options (loadData h s) = options s"
    and "currentPage (loadData h s) = currentPage s"
    and "totalPages (loadData h s) =
           ceilDiv (int (length (data (options s)))) (pageSize (options s))"
    and "isBusy (loadData h s) = False"
    and "totalRecords (loadData h s) = int (length (data (options s)))"
    and "tbody (loadData h s) = tbody (renderData h (map (heap s) (pageData s)) s)"
  using assms by (simp_all add: loadData_paged_client renderData_def)

lemma js_slice_page:
  assumes "0 \<le> k" "1 \<le> ps"
  shows "js_slice xs (k * ps) (k * ps + ps) = take (nat ps) (drop (nat (k * ps)) xs)"
proof -
  have ps0: "0 \<le> ps" using assms by simp
  have kp: "0 \<le> k * ps" using assms(1) ps0 by (rule mult_nonneg_nonneg)
  have nn: "\<not> k * ps < 0" "\<not> k * ps + ps < 0" using kp ps0 by linarith+
  show ?thesis
  proof (cases "k * ps \<ge> int (length xs)")
    case True
    then show ?thesis using nn assms by (simp add: js_slice_def Let_def min_def)
  next
    case False
    then show ?thesis using nn assms
      by (auto simp add: js_slice_def Let_def min_def nat_diff_distrib' nat_add_distrib)
  qed
qed

lemma concat_pages_nat:
  "concat (map (\<lambda>i. take p (drop (i * p) xs)) [0..<k]) = take (k * p) xs"
proof (induction k)
  case 0
  then show ?case by simp
next
  case (Suc k)
  have "take (k * p) xs @ take p (drop (k * p) xs) = take (k * p + p) xs"
    by (simp add: take_add)
  with Suc show ?case by (simp add: add.commute)
qed

lemma upto_pages: "[1..int k] = map (\<lambda>i. int i + 1) [0..<k]"
proof (induction k)
  case 0
  then show ?case by simp
next
  case (Suc k)
  have "[1..int (Suc k)] = [1..int k] @ [int k + 1]"
    using upto_rec2 [of 1 "int (Suc k)"] by (simp add: add.commute)
  with Suc show ?case by simp
qed

lemma ceilDiv_covers:
  assumes "1 \<le> s" "0 \<le> n"
  shows "0 \<le> ceilDiv n s" and "n \<le> ceilDiv n s * s"
proof -
  have a: "(- n) div s * s \<le> - n"
    using assms pos_mod_sign [of s "- n"] div_mult_mod_eq [of "- n" s] by linarith
  show "n \<le> ceilDiv n s * s" using a by (simp add: ceilDiv_def)
  have "(- n) div s \<le> 0" using assms
    by (simp add: div_nonpos_pos_le0)
  then show "0 \<le> ceilDiv n s" by (simp add: ceilDiv_def)
qed

lemma pageData_page:
  assumes "1 \<le> pageSize (options s)"
  shows "pageData (s\<lparr>currentPage := int i + 1\<rparr>) =
         take (nat (pageSize (options s)))
           (drop (i * nat (pageSize (options s))) (data (options s)))"
proof -
  have "nat (int i * pageSize (options s)) = i * nat (pageSize (options s))"
    by (simp add: nat_mult_distrib)
  then show ?thesis
    using js_slice_page [of "int i" "pageSize (options s)" "data (options s)"] assms
    by (simp add: pageData_def Let_def)
qed

text \<open>
  The pages \<open>1..ceil(n/s)\<close>, in page order, cover the working array exactly once, for
  every array (the empty one included, which has no page to concatenate).
\<close>

lemma pages_concat:
  assumes "1 \<le> pageSize (options s)"
  shows "concat (map (\<lambda>p. pageData (s\<lparr>currentPage := p\<rparr>))
           [1..ceilDiv (int (length (data (options s)))) (pageSize (options s))])
         = data (options s)"
proof -
  let ?ps = "pageSize (options s)" and ?d = "data (options s)"
  let ?tp = "ceilDiv (int (length ?d)) ?ps"
  have tp0: "0 \<le> ?tp" and cover: "int (length ?d) \<le> ?tp * ?ps"
    using ceilDiv_covers [of ?ps "int (length ?d)"] assms by simp_all
  have "[1..?tp] = map (\<lambda>i. int i + 1) [0..<nat ?tp]"
    using upto_pages [of "nat ?tp"] tp0 by simp
  then have "concat (map (\<lambda>p. pageData (s\<lparr>currentPage := p\<rparr>)) [1..?tp]) =
        concat (map (\<lambda>i. take (nat ?ps) (drop (i * nat ?ps) ?d)) [0..<nat ?tp])"
    using assms by (simp add: comp_def pageData_page)
  also have "\<dots> = take (nat ?tp * nat ?ps) ?d"
    by (rule concat_pages_nat)
  also have "\<dots> = ?d"
  proof -
    have "int (nat ?tp * nat ?ps) = ?tp * ?ps"
      using tp0 assms by simp
    then have "length ?d \<le> nat ?tp * nat ?ps" using cover by linarith
    then show ?thesis by simp
  qed
  finally show ?thesis .
qed

text \<open>
  After a load of a paged client-side table the page count is \<open>ceil(n/s)\<close> and the
  rendered rows are those of the current page; with the lemma above, the pages
  \<open>1..totalPages\<close> reproduce the dataset.
\<close>

lemma load_then_pages_cover:
  assumes "\<not> isBusy s" "\<not> serverSide (options s)"
    "\<not> infiniteScroll (options s)" "\<not> lazyLoad (options s)" "1 \<le> pageSize (options s)"
  shows "totalPages (loadData h s) =
           ceilDiv (int (length (data (options s)))) (pageSize (options s))"
    and "tbody (loadData h s) = tbody (renderData h (map (heap s) (pageData s)) s)"
    and "concat (map (\<lambda>p. pageData ((loadData h s)\<lparr>currentPage := p\<rparr>))
           [1..totalPages (loadData h s)]) = data (options s)"
proof -
  show "totalPages (loadData h s) =
           ceilDiv (int (length (data (options s)))) (pageSize (options s))"
    using assms by (simp add: loadData_paged_client_fields)
  show "tbody (loadData h s) = tbody (renderData h (map (heap s) (pageData s)) s)"
    using assms by (simp add: loadData_paged_client_fields)
  have o: "options (loadData h s) = options s"
    using assms by (simp add: loadData_paged_client_fields)
  show "concat (map (\<lambda>p. pageData ((loadData h s)\<lparr>currentPage := p\<rparr>))
           [1..totalPages (loadData h s)]) = data (options s)"
    using pages_concat [of "loadData h s"] assms o
    by (simp add: loadData_paged_client_fields)
qed

lemma table25_fields:
  "currentPage table25 = 1" "totalPages table25 = 3" "isBusy table25 = False"
  "options table25 = defaultOptions\<lparr>data := [0..<25], columns := [idColumn]\<rparr>"
  by (simp_all add: table25_def construct_def defaultOptions_def initialState_def
        loadData_paged_client_fields ceilDiv_def)

lemma page3of25_fields:
  "currentPage page3of25 = 3" "totalPages page3of25 = 3" "isBusy page3of25 = False"
  "options page3of25 = defaultOptions\<lparr>data := [0..<25], columns := [idColumn]\<rparr>"
  by (simp_all add: page3of25_def goToPage_def table25_fields defaultOptions_def
        loadData_paged_client_fields ceilDiv_def)

text \<open>
  The scenario of 25 rows and \<open>pageSize = 10\<close>: three pages, and \<open>goToPage(3)\<close>
  renders exactly rows 21 to 25.
\<close>

lemma page3of25_rows:
  "pageData page3of25 = [20, 21, 22, 23, 24]"
  "tbody page3of25 =
     [\<lparr>rowIndexAttr = Some 0, cells = [''21'']\<rparr>, \<lparr>rowIndexAttr = Some 1, cells = [''22'']\<rparr>,
      \<lparr>rowIndexAttr = Some 2, cells = [''23'']\<rparr>, \<lparr>rowIndexAttr = Some 3, cells = [''24'']\<rparr>,
      \<lparr>rowIndexAttr = Some 4, cells = [''25'']\<rparr>]"
  by code_simp+

text \<open>
  Claim C1. After a load of a client-side table of \<open>n\<close> rows with page size \<open>s \<ge> 1\<close>,
  \<open>totalPages\<close> is \<open>ceil(n/s)\<close>, or 1 when \<open>n = 0\<close>, and the pages \<open>1..totalPages\<close>
  reproduce the dataset. The lemmas above give the page count \<open>ceil(n/s)\<close>, the cover
  and the 25-row scenario. For the empty dataset the source computes
  \<open>Math.ceil(0 / pageSize) = 0\<close>, not 1: the constructed empty table reads
  "Page 1 of 0" and its Next button is enabled. The server-side continuation ends its
  page count with \<open>|| 1\<close> and the constructor starts from \<open>totalPages = 1\<close>; the
  client-side path misses the case.
\<close>

theorem empty_table_has_zero_pages:
  "data (options emptyTable) = [] \<and> totalPages emptyTable = 0
    \<and> pageInfo (pagination emptyTable) = (1, 0, None)
    \<and> nextDisabled (pagination emptyTable) = False"
  by code_simp

section \<open>One load at a time\<close>

lemma loadClientData_load [simp]:
  "inFlight (loadClientData h s) = inFlight s" "isBusy (loadClientData h s) = False"
  by (simp_all add: loadClientData_def Let_def)

lemma oneInFlight_loadData:
  assumes "oneInFlight s'" "inFlight s = inFlight s'" "isBusy s = isBusy s'"
  shows "oneInFlight (loadData h s)"
  using assms by (auto simp add: oneInFlight_def loadData_def loadServerData_def Let_def)

lemma oneInFlight_loadMore: "oneInFlight s \<Longrightarrow> oneInFlight (loadMore h s)"
  by (auto simp add: oneInFlight_def loadMore_def loadServerData_def Let_def)

lemma oneInFlight_response: "oneInFlight s \<Longrightarrow> oneInFlight (onServerResponse h r s)"
  by (cases "inFlight s") (auto simp add: oneInFlight_def onServerResponse_def Let_def)

lemma oneInFlight_error: "oneInFlight s \<Longrightarrow> oneInFlight (onServerError msg s)"
  by (cases "inFlight s") (auto simp add: oneInFlight_def onServerError_def Let_def)

lemma addToVersionHistory_load [simp]:
  "inFlight (addToVersionHistory r f v u t s) = inFlight s"
  "isBusy (addToVersionHistory r f v u t s) = isBusy s"
  by (simp_all add: addToVersionHistory_def Let_def split: option.splits)

lemma updateCell_load [simp]:
  "inFlight (updateCellFromCollaboration h r f v u t s) = inFlight s"
  "isBusy (updateCellFromCollaboration h r f v u t s) = isBusy s"
  by (simp_all add: updateCellFromCollaboration_def Let_def split: option.splits)

lemma handleMessage_load [simp]:
  "inFlight (handleCollaborationMessage h m t s) = inFlight s"
  "isBusy (handleCollaborationMessage h m t s) = isBusy s"
  by (simp_all add: handleCollaborationMessage_def split: option.splits)

lemma showVersionHistory_load [simp]:
  "inFlight (showVersionHistory vs r f s) = inFlight s"
  "isBusy (showVersionHistory vs r f s) = isBusy s"
  by (simp_all add: showVersionHistory_def Let_def split: versions_ref.splits)

text \<open>Every operation keeps the invariant, so every reachable state has it.\<close>

lemma reachable_oneInFlight: "reachable h s \<Longrightarrow> oneInFlight s"
proof (induction rule: reachable.induct)
  case (r_construct opts hp)
  show ?case unfolding construct_def Let_def
    by (rule oneInFlight_loadData [where s' = "initialState opts hp"])
       (simp_all add: oneInFlight_def initialState_def)
next
  case (r_loadData s)
  show ?case by (rule oneInFlight_loadData [OF r_loadData.IH]) simp_all
next
  case (r_loadMore s)
  show ?case by (rule oneInFlight_loadMore [OF r_loadMore.IH])
next
  case (r_nextPage s)
  show ?case unfolding nextPage_def
    by (auto intro: r_nextPage.IH oneInFlight_loadData [OF r_nextPage.IH])
next
  case (r_prevPage s)
  show ?case unfolding prevPage_def
    by (auto intro: r_prevPage.IH oneInFlight_loadData [OF r_prevPage.IH])
next
  case (r_goToPage s page)
  show ?case unfolding goToPage_def
    by (auto intro: r_goToPage.IH oneInFlight_loadData [OF r_goToPage.IH])
next
  case (r_refresh s)
  show ?case unfolding refresh_def
    by (rule oneInFlight_loadData [OF r_refresh.IH]) simp_all
next
  case (r_changePageSize s n)
  show ?case unfolding changePageSize_def
    by (rule oneInFlight_loadData [OF r_changePageSize.IH]) simp_all
next
  case (r_search s query)
  show ?case unfolding search_def Let_def
    by (auto intro!: oneInFlight_loadData [OF r_search.IH])
next
  case (r_serverSearch s q)
  show ?case unfolding serverSearchInput_def
    by (rule oneInFlight_loadData [OF r_serverSearch.IH]) simp_all
next
  case (r_sortBy s hsort querySelector fld s')
  have "oneInFlight (sortFound hsort h header fld s)" for header
    unfolding sortFound_def Let_def
    by (auto intro!: oneInFlight_loadData [OF r_sortBy.IH] intro: r_sortBy.IH)
  then show ?case using r_sortBy.hyps(2) r_sortBy.IH
    by (auto simp add: sortBy_def split: query.splits)
next
  case (r_response s r)
  then show ?case by (simp add: oneInFlight_response)
next
  case (r_error s msg)
  then show ?case by (simp add: oneInFlight_error)
next
  case (r_message s m now)
  then show ?case by (simp add: oneInFlight_def)
next
  case (r_addVersion s rowIndex columnField val usr now)
  then show ?case by (simp add: oneInFlight_def)
next
  case (r_showHistory s vsort rowIndex columnField)
  then show ?case by (simp add: oneInFlight_def)
qed

lemma busyTable_state:
  "isBusy busyTable"
  "inFlight busyTable = [[(''page'', JNum (Fin 1)), (''pageSize'', JNum (Fin 10))]]"
  by (simp_all add: busyTable_def construct_def defaultOptions_def initialState_def
        loadData_def loadServerData_def buildServerParams_def updatePaginationInfo_def Let_def)

text \<open>
  Claim C2. A call of \<open>loadData\<close> while \<open>isBusy\<close> is true is a no-op: the state that
  comes out is the state that went in, with no request dispatched (\<open>inFlight\<close>), no
  render (\<open>tbody\<close>, \<open>pagination\<close>) and no field changed; and in every state an
  instance can reach, at most one request is in flight.
\<close>

theorem loadData_while_busy_is_noop:
  "(isBusy s \<longrightarrow> loadData h s = s) \<and> (reachable h s \<longrightarrow> length (inFlight s) \<le> 1)"
  using reachable_oneInFlight [of h s] by (simp add: loadData_def oneInFlight_def)

theorem loadData_while_busy_is_noop_witness:
  "isBusy busyTable \<and> loadData asciiHost busyTable = busyTable
   \<and> reachable asciiHost busyTable \<and> length (inFlight busyTable) = 1"
proof -
  have r: "reachable asciiHost busyTable"
    unfolding busyTable_def by (rule reachable.r_construct)
  show ?thesis
    using loadData_while_busy_is_noop [of busyTable asciiHost] r busyTable_state by simp
qed

text \<open>
  Claim C8. \<open>goToPage(p)\<close> changes nothing when \<open>p < 1\<close> or \<open>p > totalPages\<close>;
  \<open>nextPage()\<close> changes nothing on the last page and \<open>prevPage()\<close> nothing on the
  first. The witness is the scenario of 25 rows and \<open>pageSize = 10\<close> on page 3.
\<close>

theorem navigation_out_of_bounds_noop:
  "(page < 1 \<or> page > totalPages s \<longrightarrow> goToPage h page s = s)
   \<and> (currentPage s = totalPages s \<longrightarrow> nextPage h s = s)
   \<and> (currentPage s = 1 \<longrightarrow> prevPage h s = s)"
  by (auto simp add: goToPage_def nextPage_def prevPage_def)

theorem navigation_out_of_bounds_noop_witness:
  "length (data (options page3of25)) = 25 \<and> pageSize (options page3of25) = 10
   \<and> currentPage page3of25 = 3 \<and> totalPages page3of25 = 3
   \<and> nextPage asciiHost page3of25 = page3of25
   \<and> goToPage asciiHost 4 page3of25 = page3of25
   \<and> goToPage asciiHost 0 page3of25 = page3of25
   \<and> currentPage table25 = 1 \<and> prevPage asciiHost table25 = table25"
  using navigation_out_of_bounds_noop [of 4 page3of25 asciiHost]
        navigation_out_of_bounds_noop [of 0 page3of25 asciiHost]
        navigation_out_of_bounds_noop [of 0 table25 asciiHost]
  by (simp add: page3of25_fields table25_fields defaultOptions_def)

section \<open>Searching the original data\<close>

lemma rowMatches_iff:
  "rowMatches h cols q r \<longleftrightarrow>
     (\<exists>c \<in> set cols. getField r (field c) \<noteq> Null \<and> getField r (field c) \<noteq> Undefined
        \<and> js_includes (toLowerCase h (toString h (getField r (field c)))) q)"
  by (auto simp add: rowMatches_def list_ex_iff Let_def)

lemma search_frame [simp]:
  "originalData (search h query s) = originalData s"
  "heap (search h query s) = heap s"
  "columns (options (search h query s)) = columns (options s)"
  by (simp_all add: search_def Let_def)

lemma search_blank:
  "query = [] \<or> trim h query = [] \<Longrightarrow> data (options (search h query s)) = originalData s"
  by (auto simp add: search_def Let_def)

lemma search_nonblank:
  "query \<noteq> [] \<Longrightarrow> trim h query \<noteq> [] \<Longrightarrow>
   data (options (search h query s)) =
     filter (\<lambda>a. rowMatches h (columns (options s)) (toLowerCase h query) (heap s a)) (originalData s)"
  by (simp add: search_def Let_def)

text \<open>
  Claim C7, as amended. A blank query (empty, or empty once trimmed) makes the working
  data the original array again, whatever was searched before. Any other query keeps,
  in original order, the original rows in which some configured column holds a value
  that is neither \<open>null\<close> nor \<open>undefined\<close> and whose string, lower-cased, contains
  the lower-cased query. The original array and the rows themselves are not changed.
\<close>

theorem search_restores_or_filters:
  "(query = [] \<or> trim h query = [] \<longrightarrow> data (options (search h query s)) = originalData s)
   \<and> (query \<noteq> [] \<and> trim h query \<noteq> [] \<longrightarrow>
        data (options (search h query s)) =
          filter (\<lambda>a. \<exists>c \<in> set (columns (options s)).
                     getField (heap s a) (field c) \<noteq> Null
                   \<and> getField (heap s a) (field c) \<noteq> Undefined
                   \<and> js_includes (toLowerCase h (toString h (getField (heap s a) (field c))))
                        (toLowerCase h query))
            (originalData s))
   \<and> originalData (search h query s) = originalData s
   \<and> heap (search h query s) = heap s
   \<and> data (options (search h [] (search h query s))) = originalData s"
  using search_blank [of query h s] search_nonblank [of query h s]
        search_blank [of "[]" h "search h query s"]
  by (simp add: rowMatches_iff)

text \<open>
  The claim as worded matches the stringified value against the lower-cased query: it
  would keep a row whose cell is \<open>null\<close> for the query \<open>l\<close> (the string "null"
  contains it) and drop the row "HELLO" (which has no lower-case l). The source does
  the opposite on both rows: it skips \<open>null\<close> cells and lower-cases the value.
\<close>

lemma searchTable_fields:
  "originalData searchTable = [0, 1]" "heap searchTable = searchRows"
  "columns (options searchTable) = [nameColumn]"
  by (simp_all add: searchTable_def construct_def defaultOptions_def initialState_def)

lemma searchTable_search_l: "data (options (search asciiHost ''l'' searchTable)) = [0]"
  by code_simp

lemma searchTable_spec_l:
  "filter (\<lambda>a. specMatches asciiHost (columns (options searchTable)) ''l'' (heap searchTable a))
     (originalData searchTable) = [1]"
  by code_simp

text \<open>Counterexample to claim C7 as worded: the rows kept by the source and by the wording.\<close>

theorem search_spec_wording_counterexample:
  "data (options (search asciiHost ''l'' searchTable)) = [0]
   \<and> filter (\<lambda>a. specMatches asciiHost (columns (options searchTable)) ''l'' (heap searchTable a))
        (originalData searchTable) = [1]"
  using searchTable_search_l searchTable_spec_l by simp

lemma searchTable_search_hello: "data (options (search asciiHost ''Hell'' searchTable)) = [0]"
  by code_simp

lemma searchTable_search_blank: "data (options (search asciiHost ''  '' (search asciiHost ''Hell'' searchTable))) = [0, 1]"
  by code_simp

text \<open>Witness for C7: a search for "Hell", then a query of two spaces, then the empty query.\<close>

theorem search_restores_or_filters_witness:
  "data (options (search asciiHost ''  '' (search asciiHost ''Hell'' searchTable))) = originalData searchTable
   \<and> data (options (search asciiHost ''Hell'' searchTable)) = [0]
   \<and> data (options (search asciiHost [] (search asciiHost ''Hell'' searchTable))) = [0, 1]"
  using search_restores_or_filters [of "''  ''" asciiHost "search asciiHost ''Hell'' searchTable"]
        search_restores_or_filters [of "''Hell''" asciiHost searchTable]
        searchTable_search_hello
  by (simp add: searchTable_fields asciiHost_def asciiTrim_def isSpace_def)

section \<open>The sort comparator\<close>

text \<open>
  Counterexample to claim C5 as worded: for two numbers the comparator returns their
  difference, here 3, which is not one of -1, 0, 1.
\<close>

theorem sortCompare_range_counterexample:
  "sortCompare asciiHost ''asc'' (JNum (Fin 5)) (JNum (Fin 2)) = Fin 3
   \<and> sortCompare asciiHost ''asc'' (JNum (Fin 5)) (JNum (Fin 2)) \<notin> {Fin (- 1), Fin 0, Fin 1}"
  by (simp add: sortCompare_def strictEq_def parseFloat_def isNaN_def)

lemma strictEq_sym: "strictEq a b = strictEq b a"
  by (auto simp add: strictEq_def)

text \<open>Sorting descending is sorting ascending with the arguments exchanged.\<close>

lemma sortCompare_desc: "sortCompare h ''desc'' a b = sortCompare h ''asc'' b a"
  by (auto simp add: sortCompare_def Let_def strictEq_sym split: option.splits prod.splits)

text \<open>The sign of a difference of two numbers is their order.\<close>

lemma js_sub_sign:
  assumes "a \<noteq> NaN" "b \<noteq> NaN"
  shows "js_lt (js_sub a b) (Fin 0) = js_lt a b" and "js_gt (js_sub a b) (Fin 0) = js_gt a b"
  using assms by (cases a; cases b; simp add: js_gt_def)+

text \<open>
  Claim C5, as amended. The comparator returns a number whose sign orders the pair,
  not only -1, 0 or 1. Strictly equal values give 0. Otherwise the policy is decided
  for the pair alone: when \<open>parseFloat\<close> of both values is a number, the difference of
  the two numbers (reversed when descending), negative or positive as the first number
  is the smaller or the larger; else, when both values convert to valid dates, the
  difference of the two time values; else the locale comparison of the two strings, a
  falsy value read as the empty string. Descending is ascending with the pair
  exchanged.
\<close>

theorem sortCompare_policy:
  "(strictEq a b \<longrightarrow> sortCompare h dir a b = Fin 0)
   \<and> (\<not> strictEq a b \<and> parseFloat h a \<noteq> NaN \<and> parseFloat h b \<noteq> NaN \<longrightarrow>
        sortCompare h ''asc'' a b = js_sub (parseFloat h a) (parseFloat h b)
        \<and> sortCompare h ''desc'' a b = js_sub (parseFloat h b) (parseFloat h a)
        \<and> js_lt (sortCompare h ''asc'' a b) (Fin 0) = js_lt (parseFloat h a) (parseFloat h b)
        \<and> js_gt (sortCompare h ''asc'' a b) (Fin 0) = js_gt (parseFloat h a) (parseFloat h b))
   \<and> (\<not> strictEq a b \<and> (parseFloat h a = NaN \<or> parseFloat h b = NaN)
        \<and> newDate h a = Some ta \<and> newDate h b = Some tb \<longrightarrow>
        sortCompare h ''asc'' a b = Fin (of_int (ta - tb))
        \<and> sortCompare h ''desc'' a b = Fin (of_int (tb - ta))
        \<and> js_lt (sortCompare h ''asc'' a b) (Fin 0) = (ta < tb)
        \<and> js_gt (sortCompare h ''asc'' a b) (Fin 0) = (tb < ta))
   \<and> (\<not> strictEq a b \<and> (parseFloat h a = NaN \<or> parseFloat h b = NaN)
        \<and> (newDate h a = None \<or> newDate h b = None) \<longrightarrow>
        sortCompare h ''asc'' a b =
          Fin (of_int (localeCompare h (toString h (if truthy a then a else JStr []))
                                       (toString h (if truthy b then b else JStr []))))
        \<and> sortCompare h ''desc'' a b =
          Fin (of_int (localeCompare h (toString h (if truthy b then b else JStr []))
                                       (toString h (if truthy a then a else JStr [])))))
   \<and> sortCompare h ''desc'' a b = sortCompare h ''asc'' b a"
proof -
  have eq: "strictEq a b \<longrightarrow> sortCompare h dir a b = Fin 0"
    by (simp add: sortCompare_def)
  have num: "sortCompare h ''asc'' a b = js_sub (parseFloat h a) (parseFloat h b)
        \<and> sortCompare h ''desc'' a b = js_sub (parseFloat h b) (parseFloat h a)
        \<and> js_lt (sortCompare h ''asc'' a b) (Fin 0) = js_lt (parseFloat h a) (parseFloat h b)
        \<and> js_gt (sortCompare h ''asc'' a b) (Fin 0) = js_gt (parseFloat h a) (parseFloat h b)"
    if "\<not> strictEq a b \<and> parseFloat h a \<noteq> NaN \<and> parseFloat h b \<noteq> NaN"
    using that js_sub_sign [of "parseFloat h a" "parseFloat h b"]
    by (simp add: sortCompare_def Let_def isNaN_def)
  have dat: "sortCompare h ''asc'' a b = Fin (of_int (ta - tb))
        \<and> sortCompare h ''desc'' a b = Fin (of_int (tb - ta))
        \<and> js_lt (sortCompare h ''asc'' a b) (Fin 0) = (ta < tb)
        \<and> js_gt (sortCompare h ''asc'' a b) (Fin 0) = (tb < ta)"
    if "\<not> strictEq a b \<and> (parseFloat h a = NaN \<or> parseFloat h b = NaN)
        \<and> newDate h a = Some ta \<and> newDate h b = Some tb"
    using that by (auto simp add: sortCompare_def Let_def isNaN_def js_gt_def)
  have str: "sortCompare h ''asc'' a b =
          Fin (of_int (localeCompare h (toString h (if truthy a then a else JStr []))
                                       (toString h (if truthy b then b else JStr []))))
        \<and> sortCompare h ''desc'' a b =
          Fin (of_int (localeCompare h (toString h (if truthy b then b else JStr []))
                                       (toString h (if truthy a then a else JStr []))))"
    if "\<not> strictEq a b \<and> (parseFloat h a = NaN \<or> parseFloat h b = NaN)
        \<and> (newDate h a = None \<or> newDate h b = None)"
    using that by (auto simp add: sortCompare_def Let_def isNaN_def split: option.splits)
  show ?thesis using eq num dat str sortCompare_desc [of h a b] by blast
qed

text \<open>Witness for C5: one pair for each branch of the policy.\<close>

theorem sortCompare_policy_witness:
  "sortCompare asciiHost ''asc'' (JStr ''7'') (JStr ''7'') = Fin 0
   \<and> sortCompare asciiHost ''asc'' (JStr ''10'') (JNum (Fin 9)) = Fin 1
   \<and> sortCompare asciiHost ''desc'' (JStr ''10'') (JNum (Fin 9)) = Fin (- 1)
   \<and> sortCompare asciiHost ''asc'' (JBool True) (JNum (Fin 5)) = Fin (- 4)
   \<and> sortCompare asciiHost ''desc'' (JBool True) (JNum (Fin 5)) = Fin 4
   \<and> sortCompare asciiHost ''asc'' (JStr ''pear'') Null = Fin 1
   \<and> sortCompare asciiHost ''desc'' (JStr ''pear'') Null = Fin (- 1)"
  using sortCompare_policy [where h = asciiHost and a = "JStr ''7''" and b = "JStr ''7''" and dir = "''asc''"]
        sortCompare_policy [where h = asciiHost and a = "JStr ''10''" and b = "JNum (Fin 9)"]
        sortCompare_policy [where h = asciiHost and a = "JBool True" and b = "JNum (Fin 5)"
           and ta = 1 and tb = 5]
        sortCompare_policy [where h = asciiHost and a = "JStr ''pear''" and b = Null]
  by (simp add: strictEq_def parseFloat_def newDate_def timeClip_def toNumber_def toString_def
      truthy_def asciiHost_def asciiParseFloat_def decimalPrefix_def isSpace_def isDigit_def
      digitValue_def digitsValue_def Let_def)

section \<open>Stability and idempotence of sorting\<close>

lemma set_insertStable [simp]: "set (insertStable cmp x ys) = insert x (set ys)"
  by (induction ys) auto

lemma set_stableSort [simp]: "set (stableSort cmp xs) = set xs"
  by (induction xs) (simp_all add: stableSort_def)

lemma mset_insertStable [simp]: "mset (insertStable cmp x ys) = add_mset x (mset ys)"
  by (induction ys) auto

lemma mset_stableSort [simp]: "mset (stableSort cmp xs) = mset xs"
  by (induction xs) (simp_all add: stableSort_def)

lemma mset_insertAfterTies [simp]: "mset (insertAfterTies cmp x ys) = add_mset x (mset ys)"
  by (induction ys) auto

lemma mset_unstableSort [simp]: "mset (unstableSort cmp xs) = mset xs"
  by (induction xs) (simp_all add: unstableSort_def)

lemma stableSort_Cons: "stableSort cmp (x # xs) = insertStable cmp x (stableSort cmp xs)"
  by (simp add: stableSort_def)

text \<open>
  Consequences of consistency: \<open>a\<close> comes after \<open>b\<close> exactly when \<open>b\<close> comes before
  \<open>a\<close>, and \<open>not after\<close> is transitive.
\<close>

lemma cmp_exclusive: "\<not> (cmpLess cmp a b \<and> cmpGreater cmp a b)"
  by (cases "cmp a b") (simp_all add: cmpLess_def cmpGreater_def js_gt_def)


lemma consistent_subset: "consistentOn cmp S \<Longrightarrow> T \<subseteq> S \<Longrightarrow> consistentOn cmp T"
  unfolding consistentOn_def by blast

lemma consistent_refl: "consistentOn cmp S \<Longrightarrow> a \<in> S \<Longrightarrow> cmpEquiv cmp a a"
  unfolding consistentOn_def by blast

lemma consistent_sym:
  "consistentOn cmp S \<Longrightarrow> a \<in> S \<Longrightarrow> b \<in> S \<Longrightarrow> cmpEquiv cmp a b \<Longrightarrow> cmpEquiv cmp b a"
  unfolding consistentOn_def by blast

lemma consistent_trans:
  "consistentOn cmp S \<Longrightarrow> a \<in> S \<Longrightarrow> b \<in> S \<Longrightarrow> c \<in> S \<Longrightarrow> cmpEquiv cmp a b \<Longrightarrow> cmpEquiv cmp b c
     \<Longrightarrow> cmpEquiv cmp a c"
  unfolding consistentOn_def by blast

lemma consistent_less_trans:
  "consistentOn cmp S \<Longrightarrow> a \<in> S \<Longrightarrow> b \<in> S \<Longrightarrow> c \<in> S \<Longrightarrow> cmpLess cmp a b \<Longrightarrow> cmpLess cmp b c
     \<Longrightarrow> cmpLess cmp a c"
  unfolding consistentOn_def by blast

lemma consistent_greater_trans:
  "consistentOn cmp S \<Longrightarrow> a \<in> S \<Longrightarrow> b \<in> S \<Longrightarrow> c \<in> S \<Longrightarrow> cmpGreater cmp a b \<Longrightarrow> cmpGreater cmp b c
     \<Longrightarrow> cmpGreater cmp a c"
  unfolding consistentOn_def by blast

lemma consistent_flip:
  assumes "consistentOn cmp S" "a \<in> S" "b \<in> S"
  shows "cmpGreater cmp a b \<longleftrightarrow> cmpLess cmp b a"
proof
  assume g: "cmpGreater cmp a b"
  show "cmpLess cmp b a"
  proof (rule ccontr)
    assume n: "\<not> cmpLess cmp b a"
    show False
    proof (cases "cmpGreater cmp b a")
      case True
      then have "cmpGreater cmp a a" using consistent_greater_trans [OF assms(1,2,3,2) g] by simp
      then show False using consistent_refl [OF assms(1,2)] by (simp add: cmpEquiv_def)
    next
      case False
      then have "cmpEquiv cmp b a" using n by (simp add: cmpEquiv_def)
      then have "cmpEquiv cmp a b" using consistent_sym [OF assms(1,3,2)] by simp
      then show False using g by (simp add: cmpEquiv_def)
    qed
  qed
next
  assume l: "cmpLess cmp b a"
  show "cmpGreater cmp a b"
  proof (rule ccontr)
    assume n: "\<not> cmpGreater cmp a b"
    show False
    proof (cases "cmpLess cmp a b")
      case True
      then have "cmpLess cmp a a" using consistent_less_trans [OF assms(1,2,3,2) _ l] by simp
      then show False using consistent_refl [OF assms(1,2)] by (simp add: cmpEquiv_def)
    next
      case False
      then have "cmpEquiv cmp a b" using n by (simp add: cmpEquiv_def)
      then have "cmpEquiv cmp b a" using consistent_sym [OF assms(1,2,3)] by simp
      then show False using l by (simp add: cmpEquiv_def)
    qed
  qed
qed

lemma consistent_le_trans:
  assumes "consistentOn cmp S" "a \<in> S" "b \<in> S" "c \<in> S"
    and ab: "\<not> cmpLess cmp b a" and bc: "\<not> cmpLess cmp c b"
  shows "\<not> cmpLess cmp c a"
proof
  assume ca: "cmpLess cmp c a"
  have nbc: "\<not> cmpGreater cmp b c" using bc consistent_flip [OF assms(1,3,4)] by simp
  have nab: "\<not> cmpGreater cmp a b" using ab consistent_flip [OF assms(1,2,3)] by simp
  show False
  proof (cases "cmpLess cmp a b")
    case True
    then have "cmpLess cmp c b" using consistent_less_trans [OF assms(1,4,2,3) ca] by simp
    then show False using bc by simp
  next
    case False
    then have eab: "cmpEquiv cmp a b" using nab by (simp add: cmpEquiv_def)
    show False
    proof (cases "cmpLess cmp b c")
      case True
      then have "cmpLess cmp b a" using consistent_less_trans [OF assms(1,3,4,2) _ ca] by simp
      then show False using ab by simp
    next
      case False
      then have "cmpEquiv cmp b c" using nbc by (simp add: cmpEquiv_def)
      then have "cmpEquiv cmp a c" using consistent_trans [OF assms(1,2,3,4) eab] by simp
      then have "cmpEquiv cmp c a" using consistent_sym [OF assms(1,2,4)] by simp
      then show False using ca by (simp add: cmpEquiv_def)
    qed
  qed
qed

text \<open>
  For a consistent comparator the three requirements leave one result: a list that is
  in order has no other permutation that is in order and keeps its ties in place.
\<close>

lemma sorted_stable_unique:
  assumes "consistentOn cmp (set xs)" "mset ys = mset xs" "sortedBy cmp xs" "sortedBy cmp ys"
    and "keepsTies cmp xs ys"
  shows "ys = xs"
  using assms
proof (induction xs arbitrary: ys)
  case Nil
  then show ?case by simp
next
  case (Cons x xs)
  then obtain y ys' where ys: "ys = y # ys'" by (cases ys) auto
  have sets: "set ys = set (x # xs)" using Cons.prems(2) mset_eq_setD by blast
  have xS: "x \<in> set (x # xs)" by simp
  have yS: "y \<in> set (x # xs)" using sets ys by auto
  have rx: "cmpEquiv cmp x x" using consistent_refl [OF Cons.prems(1) xS] .
  have xy: "y = x"
  proof (rule ccontr)
    assume ne: "y \<noteq> x"
    then have "x \<in> set ys'" using sets ys by auto
    then have 1: "\<not> cmpLess cmp x y" using Cons.prems(4) ys by (auto simp add: sortedBy_def)
    have "y \<in> set xs" using yS ne by simp
    then have 2: "\<not> cmpLess cmp y x" using Cons.prems(3) by (auto simp add: sortedBy_def)
    have "\<not> cmpGreater cmp x y" using 2 consistent_flip [OF Cons.prems(1) xS yS] by simp
    then have e: "cmpEquiv cmp x y" using 1 by (simp add: cmpEquiv_def)
    have "filter (cmpEquiv cmp x) ys = filter (cmpEquiv cmp x) (x # xs)"
      using Cons.prems(5) by (simp add: keepsTies_def)
    then show False using e rx ys ne by simp
  qed
  have c': "consistentOn cmp (set xs)" using consistent_subset [OF Cons.prems(1)] by auto
  have m': "mset ys' = mset xs" using Cons.prems(2) ys xy by simp
  have s1: "sortedBy cmp xs" using Cons.prems(3) by (simp add: sortedBy_def)
  have s2: "sortedBy cmp ys'" using Cons.prems(4) ys by (simp add: sortedBy_def)
  have k': "keepsTies cmp xs ys'"
    unfolding keepsTies_def
  proof
    fix z assume "z \<in> set xs"
    then have "filter (cmpEquiv cmp z) (x # ys') = filter (cmpEquiv cmp z) (x # xs)"
      using Cons.prems(5) ys xy by (simp add: keepsTies_def)
    then show "filter (cmpEquiv cmp z) ys' = filter (cmpEquiv cmp z) xs"
      by (simp split: if_splits)
  qed
  show ?case using Cons.IH [OF c' m' s1 s2 k'] ys xy by simp
qed

text \<open>The insertion sort meets the requirements.\<close>

lemma sortedBy_insertStable:
  assumes "consistentOn cmp S" "x \<in> S" "set ys \<subseteq> S" "sortedBy cmp ys"
  shows "sortedBy cmp (insertStable cmp x ys)"
  using assms(3,4)
proof (induction ys)
  case Nil
  then show ?case by (simp add: sortedBy_def)
next
  case (Cons y ys)
  have yS: "y \<in> S" and sub: "set ys \<subseteq> S" using Cons.prems(1) by auto
  have tl: "sortedBy cmp ys" using Cons.prems(2) by (simp add: sortedBy_def)
  show ?case
  proof (cases "cmpGreater cmp x y")
    case True
    have "\<not> cmpLess cmp x y" using True cmp_exclusive [of cmp x y] by blast
    moreover have "\<forall>z\<in>set ys. \<not> cmpLess cmp z y" using Cons.prems(2) by (simp add: sortedBy_def)
    moreover have "sortedBy cmp (insertStable cmp x ys)" using Cons.IH [OF sub tl] .
    ultimately show ?thesis using True by (simp add: sortedBy_def cmpGreater_def)
  next
    case False
    then have yx: "\<not> cmpLess cmp y x" using consistent_flip [OF assms(1,2) yS] by simp
    have "\<not> cmpLess cmp z x" if "z \<in> set ys" for z
    proof -
      have zS: "z \<in> S" using that sub by auto
      have "\<not> cmpLess cmp z y" using Cons.prems(2) that by (simp add: sortedBy_def)
      then show ?thesis using consistent_le_trans [OF assms(1,2) yS zS yx] by simp
    qed
    then show ?thesis using False yx Cons.prems(2) by (simp add: sortedBy_def cmpGreater_def)
  qed
qed

lemma sortedBy_stableSort:
  "consistentOn cmp S \<Longrightarrow> set xs \<subseteq> S \<Longrightarrow> sortedBy cmp (stableSort cmp xs)"
proof (induction xs)
  case Nil
  then show ?case by (simp add: stableSort_def sortedBy_def)
next
  case (Cons x xs)
  then show ?case
    using sortedBy_insertStable [of cmp S x "stableSort cmp xs"] by (simp add: stableSort_Cons)
qed

lemma filter_insertStable:
  assumes "consistentOn cmp S" "x \<in> S" "a \<in> S" "set ys \<subseteq> S"
  shows "filter (cmpEquiv cmp x) (insertStable cmp a ys) = filter (cmpEquiv cmp x) (a # ys)"
  using assms(4)
proof (induction ys)
  case Nil
  then show ?case by simp
next
  case (Cons y ys)
  have yS: "y \<in> S" and sub: "set ys \<subseteq> S" using Cons.prems by auto
  show ?case
  proof (cases "cmpGreater cmp a y")
    case True
    have "\<not> cmpEquiv cmp x y" if xa: "cmpEquiv cmp x a"
    proof
      assume xy: "cmpEquiv cmp x y"
      have "cmpEquiv cmp a x" using consistent_sym [OF assms(1,2,3) xa] .
      then have "cmpEquiv cmp a y" using consistent_trans [OF assms(1,3,2) yS _ xy] by simp
      then show False using True by (simp add: cmpEquiv_def)
    qed
    then show ?thesis using True Cons.IH [OF sub] by (simp add: cmpGreater_def)
  next
    case False
    then show ?thesis by (simp add: cmpGreater_def)
  qed
qed

lemma filter_stableSort:
  "consistentOn cmp S \<Longrightarrow> x \<in> S \<Longrightarrow> set xs \<subseteq> S \<Longrightarrow>
     filter (cmpEquiv cmp x) (stableSort cmp xs) = filter (cmpEquiv cmp x) xs"
proof (induction xs)
  case Nil
  then show ?case by (simp add: stableSort_def)
next
  case (Cons a xs)
  then show ?case
    using filter_insertStable [of cmp S x a "stableSort cmp xs"] by (simp add: stableSort_Cons)
qed

lemma conformingSort_stableSort: "conformingSort stableSort"
  unfolding conformingSort_def keepsTies_def
  using sortedBy_stableSort filter_stableSort by (metis mset_stableSort subset_refl)

lemma conformingSortD:
  "conformingSort hsort \<Longrightarrow> consistentOn cmp (set xs) \<Longrightarrow>
     mset (hsort cmp xs) = mset xs \<and> sortedBy cmp (hsort cmp xs) \<and> keepsTies cmp xs (hsort cmp xs)"
  by (simp add: conformingSort_def)

text \<open>
  So does the sort that reverses a descending run: under a consistent comparator no
  two elements of such a run tie.
\<close>

lemma descending_run:
  assumes "consistentOn cmp S"
  shows "set xs \<subseteq> S \<Longrightarrow> successively (\<lambda>a b. cmpLess cmp b a) xs
           \<Longrightarrow> sorted_wrt (\<lambda>a b. cmpLess cmp b a) xs"
proof (induction xs)
  case Nil
  then show ?case by simp
next
  case (Cons x xs)
  have xS: "x \<in> S" and sub: "set xs \<subseteq> S" using Cons.prems(1) by auto
  have tl: "successively (\<lambda>a b. cmpLess cmp b a) xs" using Cons.prems(2) by (cases xs) simp_all
  have srt: "sorted_wrt (\<lambda>a b. cmpLess cmp b a) xs" using Cons.IH [OF sub tl] .
  have "cmpLess cmp z x" if "z \<in> set xs" for z
  proof (cases xs)
    case Nil
    then show ?thesis using that by simp
  next
    case (Cons y ys)
    have yx: "cmpLess cmp y x" using Cons.prems(2) Cons by simp
    have yS: "y \<in> S" and zS: "z \<in> S" using sub Cons that by auto
    show ?thesis
    proof (cases "z = y")
      case True
      then show ?thesis using yx by simp
    next
      case False
      then have "cmpLess cmp z y" using srt Cons that by auto
      then show ?thesis using consistent_less_trans [OF assms zS yS xS _ yx] by simp
    qed
  qed
  then show ?case using srt by simp
qed

lemma rev_no_pair:
  "sorted_wrt R ys \<Longrightarrow> (\<forall>a\<in>set ys. \<forall>b\<in>set ys. \<not> R a b) \<Longrightarrow> rev ys = ys"
  by (induction ys rule: induct_list012) auto

lemma conformingSort_runSort: "conformingSort runSort"
  unfolding conformingSort_def
proof (intro allI impI)
  fix cmp :: "'a \<Rightarrow> 'a \<Rightarrow> jsnum" and xs
  assume c: "consistentOn cmp (set xs)"
  show "mset (runSort cmp xs) = mset xs \<and> sortedBy cmp (runSort cmp xs)
        \<and> keepsTies cmp xs (runSort cmp xs)"
  proof (cases "successively (\<lambda>a b. cmpLess cmp b a) xs")
    case False
    then have "runSort cmp xs = stableSort cmp xs" by (simp add: runSort_def cmpLess_def)
    then show ?thesis using conformingSortD [OF conformingSort_stableSort c] by simp
  next
    case True
    then have r: "runSort cmp xs = rev xs" by (simp add: runSort_def cmpLess_def)
    have d: "sorted_wrt (\<lambda>a b. cmpLess cmp b a) xs" using descending_run [OF c _ True] by simp
    have "sorted_wrt (\<lambda>a b. \<not> cmpLess cmp a b) xs"
    proof (rule sorted_wrt_mono_rel [OF _ d])
      fix a b assume "a \<in> set xs" "b \<in> set xs" "cmpLess cmp b a"
      then show "\<not> cmpLess cmp a b"
        using consistent_flip [OF c, of a b] cmp_exclusive [of cmp a b] by blast
    qed
    then have s: "sortedBy cmp (rev xs)" by (simp add: sortedBy_def sorted_wrt_rev)
    have k: "keepsTies cmp xs (rev xs)"
      unfolding keepsTies_def
    proof
      fix x assume xS: "x \<in> set xs"
      let ?f = "filter (cmpEquiv cmp x) xs"
      have fs: "sorted_wrt (\<lambda>a b. cmpLess cmp b a) ?f" using d by (rule sorted_wrt_filter)
      have "\<not> cmpLess cmp b a" if "a \<in> set ?f" "b \<in> set ?f" for a b
      proof -
        have aS: "a \<in> set xs" and bS: "b \<in> set xs" and xa: "cmpEquiv cmp x a"
          and xb: "cmpEquiv cmp x b" using that by auto
        have "cmpEquiv cmp b x" using consistent_sym [OF c xS bS xb] .
        then have "cmpEquiv cmp b a" using consistent_trans [OF c bS xS aS _ xa] by simp
        then show ?thesis by (simp add: cmpEquiv_def)
      qed
      then have "rev ?f = ?f" using rev_no_pair [OF fs] by blast
      then show "filter (cmpEquiv cmp x) (rev xs) = filter (cmpEquiv cmp x) xs"
        by (simp add: rev_filter [symmetric])
    qed
    show ?thesis using r s k by simp
  qed
qed


lemma conforming_keeps_ties:
  assumes "conformingSort hsort" "consistentOn cmp (set d)" "subseq [a, b] d" "cmpEquiv cmp a b"
  shows "subseq [a, b] (hsort cmp d)"
proof -
  have "subseq [a] [a, b]" by simp
  then have "subseq [a] d" using assms(3) subseq_order.order_trans by blast
  then have aS: "a \<in> set d" by (simp add: subseq_singleton_left)
  have "cmpEquiv cmp a a" using consistent_refl [OF assms(2) aS] .
  then have "filter (cmpEquiv cmp a) [a, b] = [a, b]" using assms(4) by simp
  then have "subseq [a, b] (filter (cmpEquiv cmp a) d)"
    using subseq_filter [OF assms(3), of "cmpEquiv cmp a"] by simp
  moreover have "filter (cmpEquiv cmp a) (hsort cmp d) = filter (cmpEquiv cmp a) d"
    using assms(1,2) aS by (simp add: conformingSort_def keepsTies_def)
  ultimately have "subseq [a, b] (filter (cmpEquiv cmp a) (hsort cmp d))" by simp
  then show ?thesis using subseq_filter_left subseq_order.order_trans by blast
qed

lemma conforming_sorts_agree:
  assumes "conformingSort hsort" "consistentOn cmp (set d)"
  shows "hsort cmp d = stableSort cmp d"
proof -
  let ?e = "stableSort cmp d"
  have c: "consistentOn cmp (set ?e)" using assms(2) by simp
  have st: "sortedBy cmp ?e" "keepsTies cmp d ?e"
    using conformingSortD [OF conformingSort_stableSort assms(2)] by simp_all
  have hs: "mset (hsort cmp d) = mset d" "sortedBy cmp (hsort cmp d)" "keepsTies cmp d (hsort cmp d)"
    using assms by (simp_all add: conformingSort_def)
  have "keepsTies cmp ?e (hsort cmp d)" using st(2) hs(3) by (simp add: keepsTies_def)
  then show ?thesis using sorted_stable_unique [OF c _ st(1) hs(2)] hs(1) by simp
qed




text \<open>
  What \<open>sortBy\<close> stores in a client-side table once the header cell is found: the
  working data sorted in the direction it has just toggled to (two calls in a row for
  one field sort ascending, then descending).
\<close>

lemma sortBy_found:
  "querySelector (headerSelector fld) = Found header \<Longrightarrow>
     sortBy hsort h querySelector fld s = Inr (sortFound hsort h header fld s)"
  by (simp add: sortBy_def)

lemma sortBy_not_found:
  "querySelector (headerSelector fld) = NoElement \<Longrightarrow> sortBy hsort h querySelector fld s = Inr s"
  "querySelector (headerSelector fld) = Throws \<Longrightarrow> sortBy hsort h querySelector fld s = Inl SyntaxError"
  by (simp_all add: sortBy_def)

lemma sortBy_client_data:
  assumes "\<not> serverSide (options s)"
  shows "data (options (sortFound hsort h header fld s)) =
         sortData hsort h
           (if sortField s = fld then (if sortDirection s = ''asc'' then ''desc'' else ''asc'')
            else ''asc'')
           fld (heap s) (data (options s))"
  using assms by (simp add: sortFound_def Let_def)

text \<open>
  So \<open>sortBy\<close> itself, on such a runtime and column, keeps two rows that tie in the
  direction of the sort in their order.
\<close>

lemma sortBy_keeps_ties:
  assumes "conformingSort hsort"
    and "querySelector (headerSelector fld) = Found header" "\<not> serverSide (options s)"
    and "dir = (if sortField s = fld then (if sortDirection s = ''asc'' then ''desc'' else ''asc'')
                else ''asc'')"
    and "consistentOn (rowCompare h dir fld (heap s)) (set (data (options s)))"
    and "subseq [a, b] (data (options s))"
    and "cmpEquiv (rowCompare h dir fld (heap s)) a b"
  shows "\<exists>s'. sortBy hsort h querySelector fld s = Inr s' \<and> subseq [a, b] (data (options s'))"
proof -
  have "data (options (sortFound hsort h header fld s)) =
      hsort (rowCompare h dir fld (heap s)) (data (options s))"
    using sortBy_client_data [OF assms(3), of hsort h header fld] assms(4) by (simp add: sortData_def)
  then show ?thesis
    using conforming_keeps_ties [OF assms(1,5,6,7)] assms(2) by (simp add: sortBy_def)
qed


text \<open>
  The three outcomes of the header lookup on the sample table, whose only header cell
  has the field \<open>k\<close>: found; no such header; a selector that does not parse.
\<close>

lemma tieTable_no_header:
  "headerQuery (columns (options tieTable)) (headerSelector ''n'') = NoElement"
  by code_simp

lemma tieTable_bad_selector:
  "headerQuery (columns (options tieTable)) (headerSelector (''k'' @ [CHR 0x22])) = Throws"
  by code_simp

lemma tieTable_sortBy_outcomes:
  "sortBy hsort asciiHost (headerQuery (columns (options tieTable))) ''n'' tieTable = Inr tieTable"
  "sortBy hsort asciiHost (headerQuery (columns (options tieTable))) (''k'' @ [CHR 0x22]) tieTable
     = Inl SyntaxError"
  using tieTable_no_header tieTable_bad_selector by (simp_all add: sortBy_def)


lemma tieTable_stable: "data (options (sortFound stableSort asciiHost 0 ''k'' tieTable)) = [0, 1]"
  by code_simp




text \<open>
  On a column of mixed values the comparator is not consistent: it puts \<open>5\<close> before
  \<open>'a'\<close> (as strings), \<open>'a'\<close> before \<open>true\<close> (as strings) and \<open>true\<close> before \<open>5\<close> (as
  dates). The order is then the runtime's choice, and a sort that meets the
  requirements may reverse two rows that tie: the rows \<open>true\<close>, \<open>'a'\<close>, \<open>5\<close>, \<open>true\<close> are
  one descending run.
\<close>

lemma cycleRows_before:
  "cmpLess (rowCompare asciiHost ''asc'' ''k'' cycleRows) 2 1"
  "cmpLess (rowCompare asciiHost ''asc'' ''k'' cycleRows) 1 0"
  "cmpLess (rowCompare asciiHost ''asc'' ''k'' cycleRows) 0 2"
  by code_simp+

lemma cycleRows_not_consistent:
  "\<not> consistentOn (rowCompare asciiHost ''asc'' ''k'' cycleRows) (set [0, 1, 2, 3])"
proof
  assume c: "consistentOn (rowCompare asciiHost ''asc'' ''k'' cycleRows) (set [0, 1, 2, 3])"
  have "cmpLess (rowCompare asciiHost ''asc'' ''k'' cycleRows) 2 0"
    using consistent_less_trans [OF c _ _ _ cycleRows_before(1,2)] by simp
  then have "cmpLess (rowCompare asciiHost ''asc'' ''k'' cycleRows) 2 2"
    using consistent_less_trans [OF c _ _ _ _ cycleRows_before(3), of 2] by simp
  then show False using consistent_refl [OF c, of 2] by (simp add: cmpEquiv_def)
qed

lemma cycleRows_tie: "rowCompare asciiHost ''asc'' ''k'' cycleRows 0 3 = Fin 0"
  by code_simp

lemma cycleRows_run: "sortData runSort asciiHost ''asc'' ''k'' cycleRows [0, 1, 2, 3] = [3, 2, 1, 0]"
  by code_simp

text \<open>
  On the rows \<open>true\<close>, \<open>'a'\<close>, \<open>5\<close> the two sorts that meet the requirements give
  different orders, so the insertion sort says nothing about the order a runtime
  gives a mixed column.
\<close>

lemma cycleRows_sorts_differ:
  "sortData stableSort asciiHost ''asc'' ''k'' cycleRows [0, 1, 2] = [0, 2, 1]"
  "sortData runSort asciiHost ''asc'' ''k'' cycleRows [0, 1, 2] = [2, 1, 0]"
  by code_simp+





section \<open>The bound on version history\<close>

text \<open>Two cells have the same key only if they are the same cell.\<close>

lemma digitChar_inj: "a < 10 \<Longrightarrow> b < 10 \<Longrightarrow> digitChar a = digitChar b \<Longrightarrow> a = b"
proof -
  assume a: "a < 10" and b: "b < 10" and e: "digitChar a = digitChar b"
  have d: "distinct ''0123456789''" by simp
  have "''0123456789'' ! a = ''0123456789'' ! b" using e by (simp add: digitChar_def)
  then show "a = b" using a b d nth_eq_iff_index_eq [of "''0123456789''" a b] by simp
qed

lemma digitChar_in: "a < 10 \<Longrightarrow> digitChar a \<in> set ''0123456789''"
  unfolding digitChar_def by (rule nth_mem) simp

lemma natToString_digits: "set (natToString n) \<subseteq> set ''0123456789''"
proof (induction n rule: natToString.induct)
  case (1 n)
  show ?case
  proof (cases "n < 10")
    case True
    then show ?thesis using digitChar_in [of n] by (subst natToString.simps) simp
  next
    case False
    then show ?thesis using 1 digitChar_in [of "n mod 10"]
      by (subst natToString.simps) simp
  qed
qed

lemma natToString_nonempty: "natToString n \<noteq> []"
  by (subst natToString.simps) simp

lemma natToString_length: "10 \<le> n \<Longrightarrow> 2 \<le> length (natToString n)"
  using natToString_nonempty [of "n div 10"]
  by (subst natToString.simps) (cases "natToString (n div 10)", simp_all)

lemma natToString_inj: "natToString n = natToString m \<Longrightarrow> n = m"
proof (induction n arbitrary: m rule: natToString.induct)
  case (1 n)
  show ?case
  proof (cases "n < 10")
    case n: True
    show ?thesis
    proof (cases "m < 10")
      case True
      then show ?thesis using n 1(2) digitChar_inj [of n m]
        by (simp add: natToString.simps [of n] natToString.simps [of m])
    next
      case False
      then have "2 \<le> length (natToString m)" by (simp add: natToString_length)
      moreover have "length (natToString n) = 1" using n by (simp add: natToString.simps [of n])
      ultimately show ?thesis using 1(2) by simp
    qed
  next
    case n: False
    show ?thesis
    proof (cases "m < 10")
      case True
      then have "length (natToString m) = 1" by (simp add: natToString.simps [of m])
      moreover have "2 \<le> length (natToString n)" using n by (simp add: natToString_length)
      ultimately show ?thesis using 1(2) by simp
    next
      case False
      have e: "natToString (n div 10) @ [digitChar (n mod 10)] =
               natToString (m div 10) @ [digitChar (m mod 10)]"
        using 1(2) n False by (simp add: natToString.simps [of n] natToString.simps [of m])
      then have "natToString (n div 10) = natToString (m div 10)"
        and d: "digitChar (n mod 10) = digitChar (m mod 10)" by simp_all
      then have "n div 10 = m div 10" using 1(1) n by simp
      moreover have "n mod 10 = m mod 10" using d digitChar_inj [of "n mod 10" "m mod 10"] by simp
      ultimately show ?thesis by (metis div_mult_mod_eq)
    qed
  qed
qed

lemma intToString_inj: "intToString i = intToString j \<Longrightarrow> i = j"
proof -
  assume e: "intToString i = intToString j"
  have nd: "\<And>n. hd (natToString n) \<noteq> CHR ''-''"
  proof -
    fix n
    have "hd (natToString n) \<in> set (natToString n)" using natToString_nonempty by simp
    then have "hd (natToString n) \<in> set ''0123456789''" using natToString_digits by blast
    then show "hd (natToString n) \<noteq> CHR ''-''" by auto
  qed
  show "i = j"
  proof (cases "i < 0")
    case i: True
    show ?thesis
    proof (cases "j < 0")
      case True
      then have "natToString (nat (- i)) = natToString (nat (- j))"
        using e i by (simp add: intToString_def)
      then have "nat (- i) = nat (- j)" by (rule natToString_inj)
      then show ?thesis using i True by simp
    next
      case False
      then have "CHR ''-'' # natToString (nat (- i)) = natToString (nat j)"
        using e i by (simp add: intToString_def)
      then have "hd (natToString (nat j)) = CHR ''-''" by (metis list.sel(1))
      then show ?thesis using nd by simp
    qed
  next
    case i: False
    show ?thesis
    proof (cases "j < 0")
      case True
      then have "natToString (nat i) = CHR ''-'' # natToString (nat (- j))"
        using e i by (simp add: intToString_def)
      then have "hd (natToString (nat i)) = CHR ''-''" by (metis list.sel(1))
      then show ?thesis using nd by simp
    next
      case False
      then have "natToString (nat i) = natToString (nat j)"
        using e i by (simp add: intToString_def)
      then have "nat i = nat j" by (rule natToString_inj)
      then show ?thesis using i False by simp
    qed
  qed
qed

lemma intToString_no_colon: "CHR '':'' \<notin> set (intToString i)"
proof -
  have "\<And>n. CHR '':'' \<notin> set (natToString n)"
    using natToString_digits by fastforce
  then show ?thesis by (simp add: intToString_def)
qed

lemma split_at_first:
  "c \<notin> set xs \<Longrightarrow> c \<notin> set xs' \<Longrightarrow> xs @ c # ys = xs' @ c # ys' \<Longrightarrow> xs = xs' \<and> ys = ys'"
proof (induction xs arbitrary: xs')
  case Nil
  then show ?case by (cases xs') auto
next
  case (Cons x xs)
  then show ?case by (cases xs') auto
qed

lemma cellKey_inj: "cellKey r f = cellKey r' f' \<longleftrightarrow> r = r' \<and> f = f'"
proof
  assume "cellKey r f = cellKey r' f'"
  then have "intToString r @ CHR '':'' # f = intToString r' @ CHR '':'' # f'"
    by (simp add: cellKey_def)
  then have "intToString r = intToString r' \<and> f = f'"
    using split_at_first [OF intToString_no_colon intToString_no_colon] by blast
  then show "r = r' \<and> f = f'" using intToString_inj by blast
next
  assume "r = r' \<and> f = f'"
  then show "cellKey r f = cellKey r' f'" by simp
qed

text \<open>
  One call of \<open>addToVersionHistory\<close> appends to the history of its own cell, drops
  the oldest entry when the bound is exceeded, and leaves every other cell's history
  alone.
\<close>

lemma addToVersionHistory_options [simp]:
  "options (addToVersionHistory r f v u t s) = options s"
  by (simp add: addToVersionHistory_def Let_def split: option.splits)

lemma addToVersionHistory_wf:
  assumes "wfVersions s"
  shows "wfVersions (addToVersionHistory r f v u t s)"
proof (cases "versionHistory (options s)")
  case False
  then show ?thesis using assms by (simp add: addToVersionHistory_def)
next
  case True
  show ?thesis
  proof (cases "cellVersions s (cellKey r f)")
    case None
    then show ?thesis using assms True
      by (auto simp add: addToVersionHistory_def Let_def wfVersions_def less_Suc_eq
          split: if_splits)
  next
    case (Some a)
    then show ?thesis using assms True
      by (simp add: addToVersionHistory_def Let_def wfVersions_def)
  qed
qed

lemma addToVersionHistory_stored:
  assumes "wfVersions s" "versionHistory (options s)"
  shows "storedHistory (addToVersionHistory r f v u t s) r' f' =
     (if r' = r \<and> f' = f
      then limitTo (maxVersions (options s))
             (storedHistory s r f @
                [\<lparr>v_value = v, v_timestamp = t,
                  v_user = (case u of Some x \<Rightarrow> x | None \<Rightarrow> unknownUser)\<rparr>])
      else storedHistory s r' f')"
proof (cases "cellVersions s (cellKey r f)")
  case None
  have fresh: "\<And>k a. cellVersions s k = Some a \<Longrightarrow> a \<noteq> nextArray s"
    using assms(1) by (auto simp add: wfVersions_def)
  show ?thesis using None assms(2) fresh
    by (auto simp add: addToVersionHistory_def Let_def storedHistory_def limitTo_def cellKey_inj
        split: option.splits)
next
  case (Some a)
  have sep: "\<And>k b. cellVersions s k = Some b \<Longrightarrow> k \<noteq> cellKey r f \<Longrightarrow> b \<noteq> a"
    using assms(1) Some by (auto simp add: wfVersions_def)
  show ?thesis using Some assms(2) sep
    by (auto simp add: addToVersionHistory_def Let_def storedHistory_def limitTo_def cellKey_inj
        split: option.splits)
qed

lemma limitTo_length: "length xs \<le> n \<Longrightarrow> length (limitTo n (xs @ [x])) \<le> n"
  by (auto simp add: limitTo_def)

lemma keepLast_limitTo:
  assumes "length xs \<le> n"
  shows "keepLast n (limitTo n (xs @ [x]) @ rest) = keepLast n (xs @ x # rest)"
proof (cases "length xs = n")
  case True
  have n: "n = length xs" using True by simp
  show ?thesis unfolding n by (cases xs) (simp_all add: keepLast_def limitTo_def)
next
  case False
  then show ?thesis using assms by (simp add: keepLast_def limitTo_def)
qed

lemma recordEdits_stored:
  assumes "wfVersions s" "versionHistory (options s)"
    "length (storedHistory s r f) \<le> maxVersions (options s)"
  shows "storedHistory (recordEdits es s) r f =
         keepLast (maxVersions (options s))
           (storedHistory s r f @ map entryOf (editsOf r f es))"
  using assms
proof (induction es arbitrary: s)
  case Nil
  then show ?case by (simp add: recordEdits_def editsOf_def keepLast_def)
next
  case (Cons e es)
  let ?s1 = "recordEdit e s"
  have wf1: "wfVersions ?s1" using Cons.prems(1) by (simp add: recordEdit_def addToVersionHistory_wf)
  have o1: "options ?s1 = options s" by (simp add: recordEdit_def)
  show ?case
  proof (cases "e_row e = r \<and> e_field e = f")
    case True
    have st: "storedHistory ?s1 r f =
        limitTo (maxVersions (options s)) (storedHistory s r f @ [entryOf e])"
      using addToVersionHistory_stored [OF Cons.prems(1,2), of "e_row e" "e_field e" "e_value e"
          "e_user e" "e_time e" r f] True
      by (simp add: recordEdit_def entryOf_def)
    have len: "length (storedHistory ?s1 r f) \<le> maxVersions (options ?s1)"
      using st Cons.prems(3) o1 by (simp add: limitTo_length)
    have "storedHistory (recordEdits es ?s1) r f =
        keepLast (maxVersions (options ?s1)) (storedHistory ?s1 r f @ map entryOf (editsOf r f es))"
      using Cons.IH [OF wf1 _ len] Cons.prems(2) o1 by simp
    then show ?thesis using st o1 True Cons.prems(3)
      by (simp add: recordEdits_def editsOf_def keepLast_limitTo)
  next
    case False
    have st: "storedHistory ?s1 r f = storedHistory s r f"
      using addToVersionHistory_stored [OF Cons.prems(1,2), of "e_row e" "e_field e" "e_value e"
          "e_user e" "e_time e" r f] False
      by (auto simp add: recordEdit_def)
    have len: "length (storedHistory ?s1 r f) \<le> maxVersions (options ?s1)"
      using st Cons.prems(3) o1 by simp
    have "storedHistory (recordEdits es ?s1) r f =
        keepLast (maxVersions (options ?s1)) (storedHistory ?s1 r f @ map entryOf (editsOf r f es))"
      using Cons.IH [OF wf1 _ len] Cons.prems(2) o1 by simp
    then show ?thesis using st o1 False
      by (auto simp add: recordEdits_def editsOf_def)
  qed
qed

text \<open>
  On edits alone the bound holds. With version history enabled and a stored history
  within the bound (none yet, in particular), after a sequence of calls of
  \<open>addToVersionHistory\<close> (for any cells) of which \<open>maxVersions + k\<close> are for the
  cell, the history stored under the cell's key has length \<open>maxVersions\<close> and holds
  the entries of the cell's last \<open>maxVersions\<close> calls in call order: the earlier ones
  were evicted, oldest first.
\<close>

lemma edits_alone_keep_latest:
  assumes "wfVersions s" "versionHistory (options s)"
    "length (storedHistory s rowIndex columnField) \<le> maxVersions (options s)"
    "length (editsOf rowIndex columnField es) = maxVersions (options s) + k"
  shows "storedHistory (recordEdits es s) rowIndex columnField =
           map entryOf (drop k (editsOf rowIndex columnField es))
       \<and> length (storedHistory (recordEdits es s) rowIndex columnField) = maxVersions (options s)"
proof -
  have "storedHistory (recordEdits es s) rowIndex columnField =
      keepLast (maxVersions (options s))
        (storedHistory s rowIndex columnField @ map entryOf (editsOf rowIndex columnField es))"
    using recordEdits_stored [OF assms(1,2,3), of es] by simp
  then show ?thesis using assms(4) by (simp add: keepLast_def drop_map)
qed

lemma versionTable_fields:
  "wfVersions versionTable" "versionHistory (options versionTable)"
  "maxVersions (options versionTable) = 2"
  "cellVersions versionTable (cellKey 0 ''id'') = None"
  by (simp_all add: versionTable_def construct_def defaultOptions_def initialState_def
      wfVersions_def)

text \<open>Versions v1, v2, v3 recorded with \<open>maxVersions = 2\<close> leave v2, v3.\<close>

lemma three_edits_keep_latest:
  "storedHistory (recordEdits threeEdits versionTable) 0 ''id'' =
     [\<lparr>v_value = JStr ''v2'', v_timestamp = 2, v_user = alice\<rparr>,
      \<lparr>v_value = JStr ''v3'', v_timestamp = 3, v_user = alice\<rparr>]
   \<and> length (storedHistory (recordEdits threeEdits versionTable) 0 ''id'') = 2"
  using edits_alone_keep_latest [of versionTable 0 "''id''" threeEdits 1]
  by (simp add: versionTable_fields storedHistory_def threeEdits_def editsOf_def editAt_def
      entryOf_def)

text \<open>
  The store of version arrays is well formed in every state an instance can reach, so
  the bound above holds from any such state.
\<close>

lemma wfVersions_frame:
  "wfVersions s \<Longrightarrow> cellVersions s' = cellVersions s \<Longrightarrow> nextArray s' = nextArray s
   \<Longrightarrow> wfVersions s'"
  by (simp add: wfVersions_def)

lemma loadServerData_versions [simp]:
  "cellVersions (loadServerData s) = cellVersions s" "nextArray (loadServerData s) = nextArray s"
  by (simp_all add: loadServerData_def)

lemma appendData_versions [simp]:
  "cellVersions (appendData h rows s) = cellVersions s" "nextArray (appendData h rows s) = nextArray s"
  by (simp_all add: appendData_def Let_def)

lemma renderData_versions [simp]:
  "cellVersions (renderData h rows s) = cellVersions s" "nextArray (renderData h rows s) = nextArray s"
  by (simp_all add: renderData_def)

lemma loadMore_versions:
  "cellVersions (loadMore h s) = cellVersions s" "nextArray (loadMore h s) = nextArray s"
  by (simp_all add: loadMore_def Let_def)

lemma navigation_versions:
  "cellVersions (nextPage h s) = cellVersions s" "nextArray (nextPage h s) = nextArray s"
  "cellVersions (prevPage h s) = cellVersions s" "nextArray (prevPage h s) = nextArray s"
  "cellVersions (goToPage h p s) = cellVersions s" "nextArray (goToPage h p s) = nextArray s"
  "cellVersions (refresh h s) = cellVersions s" "nextArray (refresh h s) = nextArray s"
  "cellVersions (changePageSize h n s) = cellVersions s"
  "nextArray (changePageSize h n s) = nextArray s"
  "cellVersions (serverSearchInput h q s) = cellVersions s"
  "nextArray (serverSearchInput h q s) = nextArray s"
  by (simp_all add: nextPage_def prevPage_def goToPage_def refresh_def changePageSize_def
      serverSearchInput_def)

lemma search_versions:
  "cellVersions (search h q s) = cellVersions s" "nextArray (search h q s) = nextArray s"
  by (simp_all add: search_def Let_def)

lemma sortFound_versions:
  "cellVersions (sortFound hsort h header fld s) = cellVersions s"
  "nextArray (sortFound hsort h header fld s) = nextArray s"
  by (simp_all add: sortFound_def Let_def)

lemma sortBy_versions:
  "sortBy hsort h querySelector fld s = Inr s' \<Longrightarrow>
     cellVersions s' = cellVersions s \<and> nextArray s' = nextArray s"
  by (auto simp add: sortBy_def sortFound_versions split: query.splits)

lemma continuation_versions:
  "cellVersions (onServerResponse h r s) = cellVersions s"
  "nextArray (onServerResponse h r s) = nextArray s"
  "cellVersions (onServerError msg s) = cellVersions s"
  "nextArray (onServerError msg s) = nextArray s"
  by (simp_all add: onServerResponse_def onServerError_def Let_def)

lemma showVersionHistory_versions:
  "cellVersions (showVersionHistory vsort ri cf s) = cellVersions s"
  "nextArray (showVersionHistory vsort ri cf s) = nextArray s"
  by (simp_all add: showVersionHistory_def Let_def split: versions_ref.splits)


lemma updateCell_wf:
  assumes "wfVersions s"
  shows "wfVersions (updateCellFromCollaboration h r f v u t s)"
proof -
  have w: "wfVersions (s\<lparr>heap := hp, tbody := tb\<rparr>)" for hp tb
    using assms by (simp add: wfVersions_def)
  have a: "wfVersions (addToVersionHistory r f v u t (s\<lparr>heap := hp, tbody := tb\<rparr>))" for hp tb
    using w by (rule addToVersionHistory_wf)
  show ?thesis
    using assms w a
    by (simp add: updateCellFromCollaboration_def Let_def split: option.splits)
qed

lemma handleMessage_wf:
  "wfVersions s \<Longrightarrow> wfVersions (handleCollaborationMessage h m now s)"
  by (simp add: handleCollaborationMessage_def updateCell_wf split: option.splits)

lemma construct_wf: "wfVersions (construct h opts hp)"
proof -
  have "wfVersions (initialState opts hp)"
    by (simp add: wfVersions_def initialState_def)
  then show ?thesis
    by (rule wfVersions_frame) (simp_all add: construct_def Let_def)
qed

lemma reachable_wfVersions: "reachable h s \<Longrightarrow> wfVersions s"
proof (induction rule: reachable.induct)
  case (r_construct opts hp)
  show ?case by (rule construct_wf)
next
  case (r_loadData s)
  then show ?case by (auto intro: wfVersions_frame)
next
  case (r_loadMore s)
  then show ?case by (auto intro: wfVersions_frame simp add: loadMore_versions)
next
  case (r_nextPage s)
  then show ?case by (auto intro: wfVersions_frame simp add: navigation_versions)
next
  case (r_prevPage s)
  then show ?case by (auto intro: wfVersions_frame simp add: navigation_versions)
next
  case (r_goToPage s page)
  then show ?case by (auto intro: wfVersions_frame simp add: navigation_versions)
next
  case (r_refresh s)
  then show ?case by (auto intro: wfVersions_frame simp add: navigation_versions)
next
  case (r_changePageSize s n)
  then show ?case by (auto intro: wfVersions_frame simp add: navigation_versions)
next
  case (r_search s query)
  then show ?case by (auto intro: wfVersions_frame simp add: search_versions)
next
  case (r_serverSearch s q)
  then show ?case by (auto intro: wfVersions_frame simp add: navigation_versions)
next
  case (r_sortBy s hsort querySelector fld s')
  then show ?case using sortBy_versions [OF r_sortBy.hyps(2)] by (auto intro: wfVersions_frame)
next
  case (r_response s r)
  then show ?case by (auto intro: wfVersions_frame simp add: continuation_versions)
next
  case (r_error s msg)
  then show ?case by (auto intro: wfVersions_frame simp add: continuation_versions)
next
  case (r_message s m now)
  then show ?case by (simp add: handleMessage_wf)
next
  case (r_addVersion s rowIndex columnField val usr now)
  then show ?case by (simp add: addToVersionHistory_wf)
next
  case (r_showHistory s vsort rowIndex columnField)
  then show ?case by (auto intro: wfVersions_frame simp add: showVersionHistory_versions)
qed

section \<open>Showing the version history\<close>

text \<open>The stable sort orders versions newest first.\<close>

lemma newestFirst_gt: "js_gt (newestFirst x y) (Fin 0) \<longleftrightarrow> v_timestamp x < v_timestamp y"
  by (simp add: newestFirst_def js_gt_def)

lemma newestFirstOrder_insert:
  "newestFirstOrder ys \<Longrightarrow> newestFirstOrder (insertStable newestFirst x ys)"
  by (induction ys) (auto simp add: newestFirstOrder_def newestFirst_gt)

lemma newestFirstOrder_stableSort: "newestFirstOrder (stableSort newestFirst xs)"
  by (induction xs) (simp_all add: stableSort_Cons newestFirstOrder_insert,
      simp add: stableSort_def newestFirstOrder_def)

text \<open>
  The comparator of \<open>showVersionHistory\<close> is a consistent comparison function: it
  orders versions by their timestamps, and two versions tie when their timestamps are
  equal. A permutation that is newest first and keeps ties in place is the recorded
  sequence itself exactly when that sequence was newest first already.
\<close>

lemma newestFirst_less: "cmpLess newestFirst x y \<longleftrightarrow> v_timestamp y < v_timestamp x"
  by (simp add: cmpLess_def newestFirst_def)

lemma newestFirst_greater: "cmpGreater newestFirst x y \<longleftrightarrow> v_timestamp x < v_timestamp y"
  by (simp add: cmpGreater_def newestFirst_def js_gt_def)

lemma newestFirst_equiv: "cmpEquiv newestFirst x y \<longleftrightarrow> v_timestamp x = v_timestamp y"
  by (auto simp add: cmpEquiv_def newestFirst_less newestFirst_greater)

lemma newestFirst_consistent: "consistentOn newestFirst S"
  by (auto simp add: consistentOn_def newestFirst_less newestFirst_greater newestFirst_equiv)

lemma newestFirst_sortedBy: "sortedBy newestFirst vs \<longleftrightarrow> newestFirstOrder vs"
  by (simp add: sortedBy_def newestFirstOrder_def newestFirst_less not_less)

lemma newestFirstOrder_same_time:
  assumes "\<forall>v\<in>set vs. \<forall>w\<in>set vs. v_timestamp v = v_timestamp w"
  shows "newestFirstOrder vs"
proof -
  have t: "sorted_wrt (\<lambda>x y. True) vs" by simp
  have "sorted_wrt (\<lambda>x y. v_timestamp y \<le> v_timestamp x) vs"
  proof (rule sorted_wrt_mono_rel [OF _ t])
    fix x y assume "x \<in> set vs" "y \<in> set vs"
    then have "v_timestamp y = v_timestamp x" using assms by blast
    then show "v_timestamp y \<le> v_timestamp x" by simp
  qed
  then show ?thesis by (simp add: newestFirstOrder_def)
qed

lemma stable_show_unchanged_iff:
  assumes "mset ys = mset xs" "newestFirstOrder ys" "keepsTies newestFirst xs ys"
  shows "ys = xs \<longleftrightarrow> newestFirstOrder xs"
proof
  assume e: "ys = xs"
  show "newestFirstOrder xs" using assms(2) unfolding e .
next
  assume "newestFirstOrder xs"
  then have s1: "sortedBy newestFirst xs" by (simp add: newestFirst_sortedBy)
  have s2: "sortedBy newestFirst ys" using assms(2) by (simp add: newestFirst_sortedBy)
  show "ys = xs"
    by (rule sorted_stable_unique [OF newestFirst_consistent assms(1) s1 s2 assms(3)])
qed

text \<open>
  Every runtime sort that meets the requirements of the language returns, for the
  versions of a cell, what the insertion sort returns; what is computed below with the
  insertion sort is what \<open>showVersionHistory\<close> does on each such runtime.
\<close>

lemma conforming_version_sort:
  "conformingSort vsort \<Longrightarrow> vsort newestFirst xs = stableSort newestFirst xs"
  by (rule conforming_sorts_agree [OF _ newestFirst_consistent])

lemma showVersionHistory_any_runtime:
  assumes "conformingSort vsort"
  shows "showVersionHistory vsort rowIndex columnField s
           = showVersionHistory stableSort rowIndex columnField s"
proof -
  have e: "vsort newestFirst = stableSort newestFirst"
    by (rule ext) (rule conforming_version_sort [OF assms])
  show ?thesis unfolding showVersionHistory_def e by (rule refl)
qed

text \<open>
  Claim C10, as amended. \<open>getCellVersionHistory\<close> returns the array stored under the
  key, not a copy, and \<open>showVersionHistory\<close> sorts that array in place, newest first
  (for a runtime sort that orders its argument). After it has run for a cell with a
  history, the stored history is in reverse-chronological order with the same entries,
  and it differs from the recorded order whenever the history held an earlier entry with
  a smaller timestamp than a later one. A history of one version is left as recorded.
  On a runtime whose sort is stable the stored history is left as recorded exactly when
  it was newest first already, so also when all its timestamps are equal.
\<close>

theorem showVersionHistory_reorders_store:
  assumes "\<forall>xs. mset (vsort newestFirst xs) = mset xs \<and> newestFirstOrder (vsort newestFirst xs)"
    and "cellVersions s (cellKey rowIndex columnField) = Some a"
    and "versionArrays s a \<noteq> []"
  shows "getCellVersionHistory rowIndex columnField s = Stored a
       \<and> cellVersions (showVersionHistory vsort rowIndex columnField s) = cellVersions s
       \<and> versionArrays (showVersionHistory vsort rowIndex columnField s) a
           = vsort newestFirst (versionArrays s a)
       \<and> newestFirstOrder (storedHistory (showVersionHistory vsort rowIndex columnField s)
                             rowIndex columnField)
       \<and> mset (storedHistory (showVersionHistory vsort rowIndex columnField s) rowIndex columnField)
           = mset (storedHistory s rowIndex columnField)
       \<and> ((\<exists>i j. i < j \<and> j < length (storedHistory s rowIndex columnField)
                \<and> v_timestamp (storedHistory s rowIndex columnField ! i)
                    < v_timestamp (storedHistory s rowIndex columnField ! j))
            \<longrightarrow> storedHistory (showVersionHistory vsort rowIndex columnField s) rowIndex columnField
                  \<noteq> storedHistory s rowIndex columnField)
       \<and> (length (storedHistory s rowIndex columnField) = 1
            \<longrightarrow> storedHistory (showVersionHistory vsort rowIndex columnField s) rowIndex columnField
                  = storedHistory s rowIndex columnField)
       \<and> ((\<forall>xs. keepsTies newestFirst xs (vsort newestFirst xs))
            \<longrightarrow> (storedHistory (showVersionHistory vsort rowIndex columnField s) rowIndex columnField
                    = storedHistory s rowIndex columnField
                  \<longleftrightarrow> newestFirstOrder (storedHistory s rowIndex columnField)))
       \<and> ((\<forall>xs. keepsTies newestFirst xs (vsort newestFirst xs))
            \<and> (\<forall>v\<in>set (storedHistory s rowIndex columnField).
                 \<forall>w\<in>set (storedHistory s rowIndex columnField). v_timestamp v = v_timestamp w)
            \<longrightarrow> storedHistory (showVersionHistory vsort rowIndex columnField s) rowIndex columnField
                  = storedHistory s rowIndex columnField)"
proof -
  let ?s' = "showVersionHistory vsort rowIndex columnField s"
  let ?old = "storedHistory s rowIndex columnField"
  let ?new = "storedHistory ?s' rowIndex columnField"
  have g: "getCellVersionHistory rowIndex columnField s = Stored a"
    using assms(2) by (simp add: getCellVersionHistory_def)
  have c: "cellVersions ?s' = cellVersions s"
    using assms(2,3) by (simp add: showVersionHistory_def getCellVersionHistory_def deref_def Let_def)
  have v: "versionArrays ?s' a = vsort newestFirst (versionArrays s a)"
    using assms(2,3) by (simp add: showVersionHistory_def getCellVersionHistory_def deref_def Let_def)
  have st: "?old = versionArrays s a"
    using assms(2) by (simp add: storedHistory_def)
  have st': "?new = vsort newestFirst ?old"
    using assms(2) c v by (simp add: storedHistory_def)
  have ord: "newestFirstOrder ?new"
    using assms(1) st' by simp
  have ms: "mset ?new = mset ?old" using assms(1) st' by simp
  have diff: "?new \<noteq> ?old"
    if "\<exists>i j. i < j \<and> j < length ?old \<and> v_timestamp (?old ! i) < v_timestamp (?old ! j)"
  proof
    assume e: "?new = ?old"
    from that obtain i j where ij: "i < j" "j < length ?old"
      "v_timestamp (?old ! i) < v_timestamp (?old ! j)" by blast
    have "newestFirstOrder ?old" using ord e by simp
    then have "v_timestamp (?old ! j) \<le> v_timestamp (?old ! i)"
      using ij(1,2) by (simp add: newestFirstOrder_def sorted_wrt_iff_nth_less)
    then show False using ij(3) by simp
  qed
  have one: "?new = ?old" if "length ?old = 1"
  proof -
    from that obtain x where x: "?old = [x]" by (cases ?old) auto
    have "mset ?new = {#x#}" using ms unfolding x by simp
    then have "?new = [x]" by (simp only: mset_single_iff)
    then show ?thesis using x by simp
  qed
  have iff: "?new = ?old \<longleftrightarrow> newestFirstOrder ?old"
    if "\<forall>xs. keepsTies newestFirst xs (vsort newestFirst xs)"
  proof -
    have 1: "mset (vsort newestFirst ?old) = mset ?old"
      and 2: "newestFirstOrder (vsort newestFirst ?old)" using assms(1) by blast+
    have 3: "keepsTies newestFirst ?old (vsort newestFirst ?old)" using that by blast
    show ?thesis unfolding st' by (rule stable_show_unchanged_iff [OF 1 2 3])
  qed
  have same: "?new = ?old"
    if "\<forall>xs. keepsTies newestFirst xs (vsort newestFirst xs)"
      and "\<forall>v\<in>set ?old. \<forall>w\<in>set ?old. v_timestamp v = v_timestamp w"
    using iff [OF that(1)] newestFirstOrder_same_time [OF that(2)] by blast
  show ?thesis
    apply (intro conjI)
    subgoal by (rule g)
    subgoal by (rule c)
    subgoal by (rule v)
    subgoal by (rule ord)
    subgoal by (rule ms)
    subgoal by (rule impI) (rule diff)
    subgoal by (rule impI) (rule one)
    subgoal by (rule impI) (rule iff)
    subgoal by (rule impI) (erule conjE, rule same)
    done
qed


lemma twoEdits_store:
  "cellVersions (recordEdits twoEdits versionTable) (cellKey 0 ''id'') = Some 0"
  "versionArrays (recordEdits twoEdits versionTable) 0 =
     [\<lparr>v_value = JStr ''v1'', v_timestamp = 1, v_user = alice\<rparr>,
      \<lparr>v_value = JStr ''v2'', v_timestamp = 2, v_user = alice\<rparr>]"
  by code_simp+

lemma twoEdits_shown:
  "stableSort newestFirst
     [\<lparr>v_value = JStr ''v1'', v_timestamp = 1, v_user = alice\<rparr>,
      \<lparr>v_value = JStr ''v2'', v_timestamp = 2, v_user = alice\<rparr>] =
     [\<lparr>v_value = JStr ''v2'', v_timestamp = 2, v_user = alice\<rparr>,
      \<lparr>v_value = JStr ''v1'', v_timestamp = 1, v_user = alice\<rparr>]"
  by (simp add: stableSort_def newestFirst_gt)

lemma sameTime_store:
  "cellVersions (recordEdits sameTimeEdits versionTable) (cellKey 0 ''id'') = Some 0"
  "versionArrays (recordEdits sameTimeEdits versionTable) 0 =
     [\<lparr>v_value = JStr ''v1'', v_timestamp = 5, v_user = alice\<rparr>,
      \<lparr>v_value = JStr ''v2'', v_timestamp = 5, v_user = alice\<rparr>]"
  by code_simp+

lemma stableSort_keeps_version_ties: "keepsTies newestFirst xs (stableSort newestFirst xs)"
  using conformingSortD [OF conformingSort_stableSort newestFirst_consistent] by blast

text \<open>
  Witness for C10, on a runtime with the insertion sort: two versions recorded at
  times 1 and 2 are stored as 2, 1 afterwards; two versions recorded at the same time
  5 are stored as they were.
\<close>

theorem showVersionHistory_reorders_store_witness:
  "storedHistory (recordEdits twoEdits versionTable) 0 ''id'' =
     [\<lparr>v_value = JStr ''v1'', v_timestamp = 1, v_user = alice\<rparr>,
      \<lparr>v_value = JStr ''v2'', v_timestamp = 2, v_user = alice\<rparr>]
   \<and> versionArrays (showVersionHistory stableSort 0 ''id'' (recordEdits twoEdits versionTable)) 0 =
     [\<lparr>v_value = JStr ''v2'', v_timestamp = 2, v_user = alice\<rparr>,
      \<lparr>v_value = JStr ''v1'', v_timestamp = 1, v_user = alice\<rparr>]
   \<and> storedHistory (showVersionHistory stableSort 0 ''id'' (recordEdits twoEdits versionTable)) 0 ''id''
       \<noteq> storedHistory (recordEdits twoEdits versionTable) 0 ''id''
   \<and> storedHistory (recordEdits sameTimeEdits versionTable) 0 ''id'' =
     [\<lparr>v_value = JStr ''v1'', v_timestamp = 5, v_user = alice\<rparr>,
      \<lparr>v_value = JStr ''v2'', v_timestamp = 5, v_user = alice\<rparr>]
   \<and> storedHistory (showVersionHistory stableSort 0 ''id'' (recordEdits sameTimeEdits versionTable))
         0 ''id''
       = storedHistory (recordEdits sameTimeEdits versionTable) 0 ''id''"
proof -
  have srt: "\<forall>xs. mset (stableSort newestFirst xs) = mset xs
               \<and> newestFirstOrder (stableSort newestFirst xs)"
    by (simp add: newestFirstOrder_stableSort)
  have kt: "\<forall>xs. keepsTies newestFirst xs (stableSort newestFirst xs)"
    by (simp add: stableSort_keeps_version_ties)
  have ne: "versionArrays (recordEdits twoEdits versionTable) 0 \<noteq> []"
    by (simp add: twoEdits_store)
  have st: "storedHistory (recordEdits twoEdits versionTable) 0 ''id'' =
     [\<lparr>v_value = JStr ''v1'', v_timestamp = 1, v_user = alice\<rparr>,
      \<lparr>v_value = JStr ''v2'', v_timestamp = 2, v_user = alice\<rparr>]"
    by (simp add: storedHistory_def twoEdits_store)
  have ex: "\<exists>i j. i < j \<and> j < length (storedHistory (recordEdits twoEdits versionTable) 0 ''id'')
        \<and> v_timestamp (storedHistory (recordEdits twoEdits versionTable) 0 ''id'' ! i)
            < v_timestamp (storedHistory (recordEdits twoEdits versionTable) 0 ''id'' ! j)"
    unfolding st by (rule exI [of _ 0], rule exI [of _ 1]) simp
  have two: "versionArrays (showVersionHistory stableSort 0 ''id'' (recordEdits twoEdits versionTable)) 0 =
     [\<lparr>v_value = JStr ''v2'', v_timestamp = 2, v_user = alice\<rparr>,
      \<lparr>v_value = JStr ''v1'', v_timestamp = 1, v_user = alice\<rparr>]
   \<and> storedHistory (showVersionHistory stableSort 0 ''id'' (recordEdits twoEdits versionTable)) 0 ''id''
       \<noteq> storedHistory (recordEdits twoEdits versionTable) 0 ''id''"
    using showVersionHistory_reorders_store [where vsort = stableSort
        and s = "recordEdits twoEdits versionTable" and rowIndex = 0
        and columnField = "''id''" and a = 0] srt ne ex
    by (simp add: twoEdits_store twoEdits_shown)
  have ne5: "versionArrays (recordEdits sameTimeEdits versionTable) 0 \<noteq> []"
    by (simp add: sameTime_store)
  have st5: "storedHistory (recordEdits sameTimeEdits versionTable) 0 ''id'' =
     [\<lparr>v_value = JStr ''v1'', v_timestamp = 5, v_user = alice\<rparr>,
      \<lparr>v_value = JStr ''v2'', v_timestamp = 5, v_user = alice\<rparr>]"
    by (simp add: storedHistory_def sameTime_store)
  have eq5: "\<forall>v\<in>set (storedHistory (recordEdits sameTimeEdits versionTable) 0 ''id'').
           \<forall>w\<in>set (storedHistory (recordEdits sameTimeEdits versionTable) 0 ''id'').
             v_timestamp v = v_timestamp w"
    unfolding st5 by simp
  have five: "storedHistory (showVersionHistory stableSort 0 ''id''
                (recordEdits sameTimeEdits versionTable)) 0 ''id''
       = storedHistory (recordEdits sameTimeEdits versionTable) 0 ''id''"
    using showVersionHistory_reorders_store [where vsort = stableSort
        and s = "recordEdits sameTimeEdits versionTable" and rowIndex = 0
        and columnField = "''id''" and a = 0] srt kt ne5 eq5 sameTime_store(1)
    by blast
  show ?thesis using st two st5 five by blast
qed

lemma oneEdit_history:
  "storedHistory (recordEdits [editAt 1 (JStr ''v1'')] versionTable) 0 ''id'' =
     [\<lparr>v_value = JStr ''v1'', v_timestamp = 1, v_user = alice\<rparr>]"
  by code_simp

lemma oneEdit_shown:
  "storedHistory (showVersionHistory stableSort 0 ''id''
      (recordEdits [editAt 1 (JStr ''v1'')] versionTable)) 0 ''id'' =
     [\<lparr>v_value = JStr ''v1'', v_timestamp = 1, v_user = alice\<rparr>]"
  by code_simp

lemma oneEdit_dialog:
  "dialogs (showVersionHistory stableSort 0 ''id''
      (recordEdits [editAt 1 (JStr ''v1'')] versionTable)) =
     [[(1, \<lparr>v_value = JStr ''v1'', v_timestamp = 1, v_user = alice\<rparr>, False)]]"
  by code_simp

lemma sameTime_history:
  "storedHistory (recordEdits sameTimeEdits versionTable) 0 ''id'' =
     [\<lparr>v_value = JStr ''v1'', v_timestamp = 5, v_user = alice\<rparr>,
      \<lparr>v_value = JStr ''v2'', v_timestamp = 5, v_user = alice\<rparr>]"
  by code_simp

lemma sameTime_shown:
  "storedHistory (showVersionHistory stableSort 0 ''id''
      (recordEdits sameTimeEdits versionTable)) 0 ''id'' =
     [\<lparr>v_value = JStr ''v1'', v_timestamp = 5, v_user = alice\<rparr>,
      \<lparr>v_value = JStr ''v2'', v_timestamp = 5, v_user = alice\<rparr>]"
  by code_simp

text \<open>
  Counterexample to claim C10 as worded: for a history of one version the dialog is
  shown and the stored history is still the sequence that was recorded; so it is for
  two versions recorded in the same millisecond, under a stable sort.
\<close>

theorem recorded_order_kept_counterexample:
  "storedHistory (recordEdits [editAt 1 (JStr ''v1'')] versionTable) 0 ''id'' =
     [\<lparr>v_value = JStr ''v1'', v_timestamp = 1, v_user = alice\<rparr>]
   \<and> dialogs (showVersionHistory stableSort 0 ''id''
        (recordEdits [editAt 1 (JStr ''v1'')] versionTable)) =
     [[(1, \<lparr>v_value = JStr ''v1'', v_timestamp = 1, v_user = alice\<rparr>, False)]]
   \<and> storedHistory (showVersionHistory stableSort 0 ''id''
        (recordEdits [editAt 1 (JStr ''v1'')] versionTable)) 0 ''id'' =
     storedHistory (recordEdits [editAt 1 (JStr ''v1'')] versionTable) 0 ''id''
   \<and> storedHistory (showVersionHistory stableSort 0 ''id''
        (recordEdits sameTimeEdits versionTable)) 0 ''id'' =
     storedHistory (recordEdits sameTimeEdits versionTable) 0 ''id''"
  using oneEdit_history oneEdit_shown oneEdit_dialog sameTime_history sameTime_shown by simp

text \<open>
  Stability is needed for histories with equal timestamps: the sort that moves an
  element past its ties returns every array as a permutation that is newest first,
  and it exchanges two versions recorded in the same millisecond.
\<close>

lemma set_insertAfterTies [simp]: "set (insertAfterTies cmp x ys) = insert x (set ys)"
  by (induction ys) auto

lemma newestFirstOrder_insertAfterTies:
  "newestFirstOrder ys \<Longrightarrow> newestFirstOrder (insertAfterTies newestFirst x ys)"
  by (induction ys) (auto simp add: newestFirstOrder_def newestFirst_def)

lemma newestFirstOrder_unstableSort: "newestFirstOrder (unstableSort newestFirst xs)"
  by (induction xs) (simp_all add: unstableSort_def newestFirstOrder_insertAfterTies,
      simp add: newestFirstOrder_def)

lemma sameTime_unstable:
  "storedHistory (showVersionHistory unstableSort 0 ''id''
      (recordEdits sameTimeEdits versionTable)) 0 ''id'' =
     [\<lparr>v_value = JStr ''v2'', v_timestamp = 5, v_user = alice\<rparr>,
      \<lparr>v_value = JStr ''v1'', v_timestamp = 5, v_user = alice\<rparr>]"
  by code_simp

text \<open>
  Once the history has been shown, the array stored for the cell is in display order,
  newest first. The next edit appends to that array and, beyond the bound, shifts out
  its first element: the newest stored version, not the oldest.
\<close>

lemma eviction_after_show:
  "storedHistory (recordEdit (editAt 3 (JStr ''v3''))
      (showVersionHistory stableSort 0 ''id'' (recordEdits twoEdits versionTable))) 0 ''id'' =
     [\<lparr>v_value = JStr ''v1'', v_timestamp = 1, v_user = alice\<rparr>,
      \<lparr>v_value = JStr ''v3'', v_timestamp = 3, v_user = alice\<rparr>]"
  by code_simp

text \<open>
  Claim C3. After \<open>maxVersions + k\<close> calls of \<open>addToVersionHistory\<close> for a cell the
  stored history holds the most recent \<open>maxVersions\<close> entries in append order, the
  oldest evicted first. The source breaks this once \<open>showVersionHistory\<close> has run for
  the cell in between: with \<open>maxVersions = 2\<close>, versions v1 and v2 recorded, the
  history shown and v3 recorded, the store holds v1 and v3; v2 was evicted although
  v1 is older.
\<close>

theorem history_shown_then_edit_evicts_newest:
  "storedHistory (recordEdits twoEdits versionTable) 0 ''id'' =
     [\<lparr>v_value = JStr ''v1'', v_timestamp = 1, v_user = alice\<rparr>,
      \<lparr>v_value = JStr ''v2'', v_timestamp = 2, v_user = alice\<rparr>]
   \<and> storedHistory (recordEdit (editAt 3 (JStr ''v3''))
        (showVersionHistory stableSort 0 ''id'' (recordEdits twoEdits versionTable))) 0 ''id'' =
     [\<lparr>v_value = JStr ''v1'', v_timestamp = 1, v_user = alice\<rparr>,
      \<lparr>v_value = JStr ''v3'', v_timestamp = 3, v_user = alice\<rparr>]"
  using eviction_after_show by (simp add: storedHistory_def twoEdits_store)

section \<open>Echo suppression\<close>

text \<open>
  Claim C4. A cell-change message whose \<open>user.id\<close> is strictly equal to the id of
  the configured local collaboration user changes nothing: rows, rendered cells and
  version history (the whole state) are as before.
\<close>

theorem own_cell_change_is_ignored:
  assumes "collaborationUser (options s) = Some localUser"
    and "m_type m = ''cell-change''"
    and "m_user m = Some u"
    and "strictEq (user_id u) (user_id localUser)"
  shows "handleCollaborationMessage h m now s = s"
  using assms
  by (simp add: handleCollaborationMessage_def updateCellFromCollaboration_def
      split: option.splits)

lemma collabTable_user: "collaborationUser (options collabTable) = Some alice"
  by (simp add: collabTable_def construct_def defaultOptions_def initialState_def
      loadData_def loadClientData_def Let_def renderData_def updatePaginationInfo_def)

text \<open>Witness for C4: Alice's own change comes back to Alice's table.\<close>

theorem own_cell_change_is_ignored_witness:
  "handleCollaborationMessage asciiHost echoMessage 7 collabTable = collabTable"
  using own_cell_change_is_ignored [of collabTable alice echoMessage alice asciiHost 7]
  by (simp add: collabTable_user echoMessage_def strictEq_def alice_def)

text \<open>The same change sent by Bob is applied: row, rendered cell and history change.\<close>

lemma remote_cell_change_row:
  "heap (handleCollaborationMessage asciiHost remoteMessage 7 collabTable) 0 ''id''
     = Some (JNum (Fin 99))"
  by code_simp

lemma remote_cell_change_cell:
  "hd (tbody (handleCollaborationMessage asciiHost remoteMessage 7 collabTable)) =
     \<lparr>rowIndexAttr = Some 0, cells = [''99'']\<rparr>"
  by code_simp

lemma remote_cell_change_history:
  "storedHistory (handleCollaborationMessage asciiHost remoteMessage 7 collabTable) 0 ''id'' =
     [\<lparr>v_value = JNum (Fin 99), v_timestamp = 7, v_user = bob\<rparr>]"
  by code_simp

section \<open>Numeric conditions\<close>

lemma evaluateCondition_gt:
  "evaluateCondition h (Some \<lparr>operator = ''>'', c_value = cv\<rparr>) r col val =
     js_gt (toNumber h val) (toNumber h (toPrimitive h cv))"
  by (simp add: evaluateCondition_def)

lemma evaluateCondition_ge:
  "evaluateCondition h (Some \<lparr>operator = ''>='', c_value = cv\<rparr>) r col val =
     js_ge (toNumber h val) (toNumber h (toPrimitive h cv))"
  by (simp add: evaluateCondition_def)

lemma evaluateCondition_lt:
  "evaluateCondition h (Some \<lparr>operator = ''<'', c_value = cv\<rparr>) r col val =
     js_lt (toNumber h val) (toNumber h (toPrimitive h cv))"
  by (simp add: evaluateCondition_def)

lemma evaluateCondition_le:
  "evaluateCondition h (Some \<lparr>operator = ''<='', c_value = cv\<rparr>) r col val =
     js_le (toNumber h val) (toNumber h (toPrimitive h cv))"
  by (simp add: evaluateCondition_def)

lemma js_lt_NaN [simp]: "js_lt a NaN = False" "js_lt NaN b = False"
  by (cases a) simp_all

text \<open>
  On numbers other than \<open>NaN\<close> the relation \<open><\<close> is the strict linear order of the
  extended number line.
\<close>

lemma js_lt_order:
  "a \<noteq> NaN \<Longrightarrow> \<not> js_lt a a"
  "js_lt a b \<Longrightarrow> js_lt b c \<Longrightarrow> js_lt a c"
  "a \<noteq> NaN \<Longrightarrow> b \<noteq> NaN \<Longrightarrow> js_lt a b \<or> a = b \<or> js_lt b a"
  "js_lt NegInf (Fin x)" "js_lt (Fin x) PosInf" "js_lt NegInf PosInf"
  by (cases a; cases b; cases c; auto)+

lemma js_compare_Fin:
  "js_lt (Fin x) (Fin y) = (x < y)" "js_le (Fin x) (Fin y) = (x \<le> y)"
  "js_gt (Fin x) (Fin y) = (y < x)" "js_ge (Fin x) (Fin y) = (y \<le> x)"
  by (auto simp add: js_le_def js_gt_def js_ge_def)

lemma js_compare_NaN:
  "a = NaN \<or> b = NaN \<Longrightarrow> \<not> js_lt a b \<and> \<not> js_le a b \<and> \<not> js_gt a b \<and> \<not> js_ge a b"
  by (auto simp add: js_le_def js_gt_def js_ge_def)

text \<open>
  Claim C9. For the operators \<open>>\<close>, \<open>>=\<close>, \<open><\<close>, \<open><=\<close> \<open>evaluateCondition\<close>
  converts the cell value and the operand to numbers and compares them: the answer is
  \<open>false\<close> when either number is \<open>NaN\<close>, and otherwise the comparison on the extended
  number line, where two finite numbers compare as rationals, \<open>-Infinity\<close> is below
  and \<open>Infinity\<close> above every finite number, and each infinity equals itself.
\<close>

theorem numeric_comparison_operators:
  assumes "op \<in> {''>'', ''>='', ''<'', ''<=''}"
  shows "(toNumber h val = NaN \<or> toNumber h (toPrimitive h cv) = NaN \<longrightarrow>
            evaluateCondition h (Some \<lparr>operator = op, c_value = cv\<rparr>) r col val = False)
       \<and> (toNumber h val = Fin x \<and> toNumber h (toPrimitive h cv) = Fin y \<longrightarrow>
            evaluateCondition h (Some \<lparr>operator = op, c_value = cv\<rparr>) r col val =
              (if op = ''>'' then x > y else if op = ''>='' then x \<ge> y
               else if op = ''<'' then x < y else x \<le> y))
       \<and> (toNumber h val = NegInf \<and> toNumber h (toPrimitive h cv) = NegInf
            \<or> toNumber h val = PosInf \<and> toNumber h (toPrimitive h cv) = PosInf \<longrightarrow>
            evaluateCondition h (Some \<lparr>operator = op, c_value = cv\<rparr>) r col val =
              (op = ''>='' \<or> op = ''<=''))
       \<and> (toNumber h val = NegInf \<and> toNumber h (toPrimitive h cv) = Fin y
            \<or> toNumber h val = NegInf \<and> toNumber h (toPrimitive h cv) = PosInf
            \<or> toNumber h val = Fin x \<and> toNumber h (toPrimitive h cv) = PosInf \<longrightarrow>
            evaluateCondition h (Some \<lparr>operator = op, c_value = cv\<rparr>) r col val =
              (op = ''<'' \<or> op = ''<=''))
       \<and> (toNumber h val = PosInf \<and> toNumber h (toPrimitive h cv) = Fin y
            \<or> toNumber h val = PosInf \<and> toNumber h (toPrimitive h cv) = NegInf
            \<or> toNumber h val = Fin x \<and> toNumber h (toPrimitive h cv) = NegInf \<longrightarrow>
            evaluateCondition h (Some \<lparr>operator = op, c_value = cv\<rparr>) r col val =
              (op = ''>'' \<or> op = ''>=''))"
proof -
  consider "op = ''>''" | "op = ''>=''" | "op = ''<''" | "op = ''<=''"
    using assms by blast
  then show ?thesis
  proof cases
    case 1
    then show ?thesis
      by (cases "toNumber h val"; cases "toNumber h (toPrimitive h cv)")
         (simp_all add: evaluateCondition_gt js_gt_def)
  next
    case 2
    then show ?thesis
      by (cases "toNumber h val"; cases "toNumber h (toPrimitive h cv)")
         (auto simp add: evaluateCondition_ge js_ge_def js_le_def)
  next
    case 3
    then show ?thesis
      by (cases "toNumber h val"; cases "toNumber h (toPrimitive h cv)")
         (simp_all add: evaluateCondition_lt)
  next
    case 4
    then show ?thesis
      by (cases "toNumber h val"; cases "toNumber h (toPrimitive h cv)")
         (auto simp add: evaluateCondition_le js_le_def)
  qed
qed

text \<open>
  Witness for C9: the rule \<open>age >= 18\<close> against \<open>{age: 17}\<close>, \<open>{age: 18}\<close> and a row
  without the field; \<open>Infinity > 18\<close>; \<open>-Infinity <= -Infinity\<close>.
\<close>

theorem numeric_comparison_operators_witness:
  "evaluateCondition asciiHost (Some ageRule) [''age'' \<mapsto> JNum (Fin 17)] None (JNum (Fin 17)) = False
   \<and> evaluateCondition asciiHost (Some ageRule) [''age'' \<mapsto> JNum (Fin 18)] None (JNum (Fin 18)) = True
   \<and> evaluateCondition asciiHost (Some ageRule) [''age'' \<mapsto> Undefined] None Undefined = False
   \<and> evaluateCondition asciiHost (Some \<lparr>operator = ''>'', c_value = CVal (JNum (Fin 18))\<rparr>)
        [''age'' \<mapsto> JNum PosInf] None (JNum PosInf) = True
   \<and> evaluateCondition asciiHost (Some \<lparr>operator = ''<='', c_value = CVal (JNum NegInf)\<rparr>)
        [''age'' \<mapsto> JNum NegInf] None (JNum NegInf) = True"
  using numeric_comparison_operators [where op = "''>=''" and h = asciiHost and val = "JNum (Fin 17)"
          and cv = "CVal (JNum (Fin 18))" and x = 17 and y = 18
          and r = "[''age'' \<mapsto> JNum (Fin 17)]" and col = None]
        numeric_comparison_operators [where op = "''>=''" and h = asciiHost and val = "JNum (Fin 18)"
          and cv = "CVal (JNum (Fin 18))" and x = 18 and y = 18
          and r = "[''age'' \<mapsto> JNum (Fin 18)]" and col = None]
        numeric_comparison_operators [where op = "''>=''" and h = asciiHost and val = Undefined
          and cv = "CVal (JNum (Fin 18))" and x = 0 and y = 0
          and r = "[''age'' \<mapsto> Undefined]" and col = None]
        numeric_comparison_operators [where op = "''>''" and h = asciiHost and val = "JNum PosInf"
          and cv = "CVal (JNum (Fin 18))" and x = 0 and y = 18
          and r = "[''age'' \<mapsto> JNum PosInf]" and col = None]
        numeric_comparison_operators [where op = "''<=''" and h = asciiHost and val = "JNum NegInf"
          and cv = "CVal (JNum NegInf)" and x = 0 and y = 0
          and r = "[''age'' \<mapsto> JNum NegInf]" and col = None]
  by (simp add: ageRule_def toNumber_def toPrimitive_def)

end
